theory Spec2Isabelle
  imports Complex_Main "HOL-Library.AList"
begin
section \<open>Data frames\<close>

text \<open>
  The Python code works on pandas data frames. A frame is modelled column-wise: an
  ordered list of named, typed columns. The three column types are the dtypes the
  code meets: \<open>bool\<close>, \<open>int64\<close> and \<open>float64\<close> (finite floats are modelled as
  reals; NaN and rounding are outside the model). All frames carry the default
  \<open>RangeIndex\<close> \<open>0, 1, ..., n - 1\<close>, and the columns of one frame have the same length.
\<close>

datatype py_error =
    KeyError | IndexError | ValueError | ZeroDivisionError | StopIteration | TrainingError string

datatype column = BoolCol "bool list" | IntCol "int list" | NumCol "real list"

type_synonym frame = "(string \<times> column) list"

fun col_len :: "column \<Rightarrow> nat" where
  "col_len (BoolCol bs) = length bs"
| "col_len (IntCol ns) = length ns"
| "col_len (NumCol rs) = length rs"

text \<open>\<open>df[c]\<close>: a missing column raises \<open>KeyError\<close>.\<close>

definition getitem :: "frame \<Rightarrow> string \<Rightarrow> py_error + column" where
  "getitem df c = (case map_of df c of None \<Rightarrow> Inl KeyError | Some col \<Rightarrow> Inr col)"

text \<open>\<open>df[c] = col\<close>: an existing column is replaced in place, a new one is appended
  as the last column.\<close>

definition setitem :: "frame \<Rightarrow> string \<Rightarrow> column \<Rightarrow> frame" where
  "setitem df c col = AList.update c col df"

text \<open>Python truth value and numeric value of the cells of a column, as the row
  iteration \<open>itertuples\<close> hands them to the loop body.\<close>

fun truthy :: "column \<Rightarrow> bool list" where
  "truthy (BoolCol bs) = bs"
| "truthy (IntCol ns) = map (\<lambda>n. n \<noteq> 0) ns"
| "truthy (NumCol rs) = map (\<lambda>r. r \<noteq> 0) rs"

fun numeric :: "column \<Rightarrow> real list" where
  "numeric (BoolCol bs) = map of_bool bs"
| "numeric (IntCol ns) = map of_int ns"
| "numeric (NumCol rs) = rs"

section \<open>Trade simulator: \<open>performance_score\<close>\<close>

text \<open>A recorded trade is the tuple \<open>(index, is_buy_mode, price, profit)\<close> the loop
  appends to \<open>longs\<close> or \<open>shorts\<close>.\<close>

type_synonym trade = "int \<times> bool \<times> real \<times> real"

definition trade_price :: "trade \<Rightarrow> real" where
  "trade_price t = fst (snd (snd t))"

definition trade_profit :: "trade \<Rightarrow> real" where
  "trade_profit t = snd (snd (snd t))"

text \<open>The local variables of \<open>performance_score\<close>.\<close>

record sim_state =
  is_buy_mode :: bool
  performance_long :: real
  long_count :: int
  long_profitable :: int
  longs :: "trade list"
  performance_short :: real
  short_count :: int
  short_profitable :: int
  shorts :: "trade list"

definition init_state :: sim_state where
  "init_state = \<lparr> is_buy_mode = True,
     performance_long = 0, long_count = 0, long_profitable = 0, longs = [],
     performance_short = 0, short_count = 0, short_profitable = 0, shorts = [] \<rparr>"

text \<open>One row \<open>(index, top_score, bot_score, price)\<close> of \<open>df.itertuples(name=None)\<close>:
  the body of the \<open>for\<close> loop.\<close>

type_synonym sim_row = "int \<times> bool \<times> bool \<times> real"

fun sim_step :: "sim_state \<Rightarrow> sim_row \<Rightarrow> sim_state" where
  "sim_step s (index, top_score, bot_score, price) =
    (if is_buy_mode s then
       (if bot_score then
          (let profit = (if length (longs s) > 0 then trade_price (last (longs s)) - price else 0)
           in s\<lparr> performance_short := performance_short s + profit,
                 short_count := short_count s + 1,
                 short_profitable := (if profit > 0 then short_profitable s + 1 else short_profitable s),
                 shorts := shorts s @ [(index, is_buy_mode s, price, profit)],
                 is_buy_mode := False \<rparr>)
        else s)
     else
       (if top_score then
          (let profit = (if length (shorts s) > 0 then price - trade_price (last (shorts s)) else 0)
           in s\<lparr> performance_long := performance_long s + profit,
                 long_count := long_count s + 1,
                 long_profitable := (if profit > 0 then long_profitable s + 1 else long_profitable s),
                 longs := longs s @ [(index, is_buy_mode s, price, profit)],
                 is_buy_mode := True \<rparr>)
        else s))"

text \<open>The \<open>for\<close> loop, from any state, and from the initial one.\<close>

fun run_from :: "sim_state \<Rightarrow> sim_row list \<Rightarrow> sim_state" where
  "run_from s [] = s"
| "run_from s (r # rs) = run_from (sim_step s r) rs"

definition simulate :: "sim_row list \<Rightarrow> sim_state" where
  "simulate rows = run_from init_state rows"

text \<open>The returned tuple.\<close>

type_synonym sim_result =
  "real \<times> real \<times> int \<times> int \<times> int \<times> int \<times> trade list \<times> trade list"

definition result_of :: "sim_state \<Rightarrow> sim_result" where
  "result_of s = (performance_long s, performance_short s, long_count s, short_count s,
     long_profitable s, short_profitable s, longs s, shorts s)"

text \<open>\<open>df[[sell, buy, price]].itertuples(name=None)\<close>: the index and the three selected
  columns, row by row.\<close>

definition itertuples3 :: "column \<Rightarrow> column \<Rightarrow> column \<Rightarrow> sim_row list" where
  "itertuples3 sell buy price =
     zip (map int [0 ..< col_len price]) (zip (truthy sell) (zip (truthy buy) (numeric price)))"

definition performance_score :: "frame \<Rightarrow> string \<Rightarrow> string \<Rightarrow> string \<Rightarrow> py_error + sim_result" where
  "performance_score df sell_signal_column buy_signal_column price_column =
     (case getitem df sell_signal_column of Inl e \<Rightarrow> Inl e | Inr sell \<Rightarrow>
      case getitem df buy_signal_column of Inl e \<Rightarrow> Inl e | Inr buy \<Rightarrow>
      case getitem df price_column of Inl e \<Rightarrow> Inl e | Inr price \<Rightarrow>
        Inr (result_of (simulate (itertuples3 sell buy price))))"

text \<open>The frame of the simulator example of the specification.\<close>

definition example_signals :: frame where
  "example_signals =
     [(''buy_signal'', BoolCol [False, True, False, False, True]),
      (''sell_signal'', BoolCol [False, False, True, False, False]),
      (''price'', NumCol [10, 9, 11, 10, 8])]"

text \<open>The bookkeeping invariant of the simulator: the counters agree with the recorded
  trades, and the mode flag tells which list is one entry ahead.\<close>

definition bookkeeping :: "sim_state \<Rightarrow> bool" where
  "bookkeeping s \<longleftrightarrow>
     long_count s = int (length (longs s)) \<and>
     short_count s = int (length (shorts s)) \<and>
     performance_long s = sum_list (map trade_profit (longs s)) \<and>
     performance_short s = sum_list (map trade_profit (shorts s)) \<and>
     0 \<le> long_profitable s \<and> long_profitable s \<le> long_count s \<and>
     0 \<le> short_profitable s \<and> short_profitable s \<le> short_count s \<and>
     short_count s - long_count s = (if is_buy_mode s then 0 else 1)"

section \<open>Interval scorer: \<open>find_interval_score\<close>\<close>

subsection \<open>The pandas operations it uses\<close>

text \<open>
  \<open>Series.diff()\<close>: the first entry is missing (\<open>None\<close>); for a boolean column the
  other entries tell whether the value differs from the one before (pandas takes the
  exclusive or and returns an object column), for a numeric column they are the
  differences (a float column).
\<close>

datatype diff_column = ObjDiff "bool option list" | NumDiff "real option list"

fun diff :: "column \<Rightarrow> diff_column" where
  "diff (BoolCol bs) =
     ObjDiff (case bs of [] \<Rightarrow> [] | b # rest \<Rightarrow> None # map (\<lambda>(x, prev). Some (x \<noteq> prev)) (zip rest bs))"
| "diff (IntCol ns) =
     NumDiff (case ns of [] \<Rightarrow> [] | n # rest \<Rightarrow>
                None # map (\<lambda>(x, prev). Some (real_of_int (x - prev))) (zip rest ns))"
| "diff (NumCol rs) =
     NumDiff (case rs of [] \<Rightarrow> [] | r # rest \<Rightarrow> None # map (\<lambda>(x, prev). Some (x - prev)) (zip rest rs))"

text \<open>\<open>out.iloc[0] = False\<close>: position 0 must exist.\<close>

fun set_first_False :: "diff_column \<Rightarrow> py_error + diff_column" where
  "set_first_False (ObjDiff []) = Inl IndexError"
| "set_first_False (ObjDiff (d # ds)) = Inr (ObjDiff (Some False # ds))"
| "set_first_False (NumDiff []) = Inl IndexError"
| "set_first_False (NumDiff (d # ds)) = Inr (NumDiff (Some 0 # ds))"

text \<open>\<open>out.astype(int)\<close>: a missing value cannot be cast; a float is truncated towards
  zero.\<close>

definition py_trunc :: "real \<Rightarrow> int" where
  "py_trunc r = (if 0 \<le> r then \<lfloor>r\<rfloor> else \<lceil>r\<rceil>)"

fun astype_int :: "diff_column \<Rightarrow> py_error + int list" where
  "astype_int (ObjDiff ds) =
     (case those ds of None \<Rightarrow> Inl ValueError | Some bs \<Rightarrow> Inr (map of_bool bs))"
| "astype_int (NumDiff ds) =
     (case those ds of None \<Rightarrow> Inl ValueError | Some rs \<Rightarrow> Inr (map py_trunc rs))"

text \<open>\<open>cumsum()\<close>: the inclusive running sum.\<close>

fun cumsum_from :: "int \<Rightarrow> int list \<Rightarrow> int list" where
  "cumsum_from acc [] = []"
| "cumsum_from acc (x # xs) = (acc + x) # cumsum_from (acc + x) xs"

definition cumsum :: "int list \<Rightarrow> int list" where
  "cumsum xs = cumsum_from 0 xs"

text \<open>\<open>df[score_column] >= threshold\<close>, element by element.\<close>

fun ge_threshold :: "column \<Rightarrow> real \<Rightarrow> bool list" where
  "ge_threshold (BoolCol bs) threshold = map (\<lambda>b. of_bool b \<ge> threshold) bs"
| "ge_threshold (IntCol ns) threshold = map (\<lambda>n. real_of_int n \<ge> threshold) ns"
| "ge_threshold (NumCol rs) threshold = map (\<lambda>r. r \<ge> threshold) rs"

text \<open>
  \<open>df.groupby(key)[column].max()\<close>: one entry per distinct key, the keys in increasing
  order; the entry of a key is the maximum of the column over the rows of that key,
  wherever they stand in the table. (A key has at least one row, so no group is empty.)
\<close>

definition group_values :: "int \<Rightarrow> int list \<Rightarrow> 'a list \<Rightarrow> 'a list" where
  "group_values k keys vals = map snd (filter (\<lambda>p. fst p = k) (zip keys vals))"

definition max_list :: "'a::linorder list \<Rightarrow> 'a" where
  "max_list xs = fold max (tl xs) (hd xs)"

definition group_keys :: "int list \<Rightarrow> int list" where
  "group_keys keys = sort (remdups keys)"

definition group_max_list :: "int list \<Rightarrow> 'a::linorder list \<Rightarrow> 'a list" where
  "group_max_list keys vals = map (\<lambda>k. max_list (group_values k keys vals)) (group_keys keys)"

fun group_max :: "int list \<Rightarrow> column \<Rightarrow> column" where
  "group_max keys (BoolCol bs) = BoolCol (group_max_list keys bs)"
| "group_max keys (IntCol ns) = IntCol (group_max_list keys ns)"
| "group_max keys (NumCol rs) = NumCol (group_max_list keys rs)"

subsection \<open>The function\<close>

text \<open>
  \<open>find_interval_score\<close> returns the caller's frame as the call leaves it (the function
  writes two columns into \<open>df\<close>) and the frame it returns or the exception it raises.
  The grouping key is the column \<open>interval_no\<close> written at line 253: the only write after
  it goes to a column whose name ends in \<open>_greater_than_threshold\<close>, so the key column is
  still the running count when \<open>groupby\<close> reads it. \<open>reset_index\<close> turns the key into the
  column \<open>interval_no\<close> of the result and refuses to do so when the result already has a
  column of that name.
\<close>

definition interval_no_column :: string where
  "interval_no_column = ''interval_no''"

definition greater_than_threshold :: "string \<Rightarrow> string" where
  "greater_than_threshold score_column = score_column @ ''_greater_than_threshold''"

definition find_interval_score ::
  "frame \<Rightarrow> string \<Rightarrow> string \<Rightarrow> real \<Rightarrow> frame \<times> (py_error + frame)" where
  "find_interval_score df label_column score_column threshold =
     (case getitem df label_column of Inl e \<Rightarrow> (df, Inl e) | Inr labels_col \<Rightarrow>
      case set_first_False (diff labels_col) of Inl e \<Rightarrow> (df, Inl e) | Inr out \<Rightarrow>
      case astype_int out of Inl e \<Rightarrow> (df, Inl e) | Inr out \<Rightarrow>
        (let interval_no = cumsum out;
             df1 = setitem df interval_no_column (IntCol interval_no)
         in
           case getitem df1 score_column of Inl e \<Rightarrow> (df1, Inl e) | Inr scores_col \<Rightarrow>
             (let df2 = setitem df1 (greater_than_threshold score_column)
                          (BoolCol (ge_threshold scores_col threshold))
              in
                case getitem df2 label_column of Inl e \<Rightarrow> (df2, Inl e) | Inr grouped_labels \<Rightarrow>
                case getitem df2 (greater_than_threshold score_column) of
                  Inl e \<Rightarrow> (df2, Inl e)
                | Inr grouped_scores \<Rightarrow>
                    (let interval_label = group_max interval_no grouped_labels;
                         interval_score = group_max interval_no grouped_scores
                     in
                       if label_column = interval_no_column \<or> score_column = interval_no_column
                       then (df2, Inl ValueError)
                       else (df2, Inr [(interval_no_column, IntCol (group_keys interval_no)),
                                       (label_column, interval_label),
                                       (score_column, interval_score)])))))"

subsection \<open>Intervals as the specification describes them\<close>

text \<open>
  The maximal runs of consecutive rows with the same label: a run is the longest
  stretch of rows, from where the run before it ended, that carry the label of its first
  row. A row is the pair of its label and its score.
\<close>

function runs :: "(bool \<times> 'a) list \<Rightarrow> (bool \<times> 'a) list list" where
  "runs [] = []"
| "runs (r # rs) = (r # takeWhile (\<lambda>x. fst x = fst r) rs) # runs (dropWhile (\<lambda>x. fst x = fst r) rs)"
  by pat_completeness auto
termination
  by (relation "measure length") (auto simp: length_dropWhile_le less_Suc_eq_le)

text \<open>The rows the specification expects for a label column and the thresholded
  scores: the interval number, the label of the run, and whether some row of the run
  reaches the threshold.\<close>

definition interval_rows :: "bool list \<Rightarrow> bool list \<Rightarrow> (int \<times> bool \<times> bool) list" where
  "interval_rows label_values hits =
     map (\<lambda>(i, run). (int i, fst (hd run), \<exists>r \<in> set run. snd r))
       (enumerate 0 (runs (zip label_values hits)))"

definition interval_frame :: "string \<Rightarrow> string \<Rightarrow> (int \<times> bool \<times> bool) list \<Rightarrow> frame" where
  "interval_frame label_column score_column rows =
     [(interval_no_column, IntCol (map fst rows)),
      (label_column, BoolCol (map (\<lambda>r. fst (snd r)) rows)),
      (score_column, BoolCol (map (\<lambda>r. snd (snd r)) rows))]"

text \<open>
  Two auxiliary functions for the proofs. \<open>run_keys k prev\<close> is the running count,
  started at \<open>k\<close>, of the changes of a label list whose predecessor is \<open>prev\<close>;
  \<open>keys_of k rows\<close> numbers the rows by their run, the first run being number \<open>k\<close>.
\<close>

fun run_keys :: "int \<Rightarrow> bool \<Rightarrow> bool list \<Rightarrow> int list" where
  "run_keys k prev [] = []"
| "run_keys k prev (b # bs) = (k + of_bool (b \<noteq> prev)) # run_keys (k + of_bool (b \<noteq> prev)) b bs"

definition keys_of :: "int \<Rightarrow> (bool \<times> 'a) list \<Rightarrow> int list" where
  "keys_of k rows = (case rows of [] \<Rightarrow> [] | r # rs \<Rightarrow> run_keys k (fst r) (map fst rows))"

subsection \<open>The cast of the label columns in \<open>main\<close>\<close>

text \<open>\<open>for label in labels: df[label] = df[label].astype(int)\<close> (lines 124-125).\<close>

fun astype_int_column :: "column \<Rightarrow> column" where
  "astype_int_column (BoolCol bs) = IntCol (map of_bool bs)"
| "astype_int_column (IntCol ns) = IntCol ns"
| "astype_int_column (NumCol rs) = IntCol (map py_trunc rs)"

fun cast_labels :: "frame \<Rightarrow> string list \<Rightarrow> py_error + frame" where
  "cast_labels df [] = Inr df"
| "cast_labels df (label # rest) =
     (case getitem df label of
        Inl e \<Rightarrow> Inl e
      | Inr col \<Rightarrow> cast_labels (setitem df label (astype_int_column col)) rest)"

text \<open>A prediction column is named \<open>label + name_tag + algorithm\<close>.\<close>

definition is_prediction_column :: "string \<Rightarrow> bool" where
  "is_prediction_column name \<longleftrightarrow>
     5 \<le> length name \<and>
     drop (length name - 5) name \<in>
       set [tag @ a. tag \<leftarrow> [''_k_'', ''_f_''], a \<leftarrow> [''gb'', ''nn'', ''lc'']]"

subsection \<open>Example tables\<close>

text \<open>The table of the scorer example of the specification, the empty table, and
  tables whose column names meet the names the function writes to.\<close>

definition example_table :: frame where
  "example_table =
     [(''label'', BoolCol [True, True, False, False, False, True]),
      (''score'', NumCol [0.9, 0.1, 0.2, 0.8, 0.1, 0.95])]"

definition empty_table :: frame where
  "empty_table = [(''label'', BoolCol []), (''score'', NumCol [])]"

definition clash_table :: frame where
  "clash_table =
     [(''score_greater_than_threshold'', BoolCol [True, False]),
      (''score'', NumCol [0.9, 0.8])]"

definition numbered_table :: frame where
  "numbered_table =
     [(''interval_no'', NumCol [0.9, 0.1]),
      (''label'', BoolCol [True, False])]"

section \<open>Rolling predictions: \<open>generate_rolling_predictions.main\<close>\<close>

text \<open>The class \<open>P\<close> of module-level parameters and the entries of \<open>App.config\<close> that
  \<open>main\<close> reads. \<open>prediction_count\<close> may be \<open>None\<close>.\<close>

record params =
  feature_sets :: "string list"
  algorithms :: "string list"
  kline_train_length :: int
  futur_train_length :: int
  prediction_length :: int
  prediction_count :: "int option"
  use_multiprocessing :: bool
  max_workers :: "nat option"

record app_config =
  label_horizon :: int
  labels :: "string list"
  features_kline :: "string list"
  features_futur :: "string list"

text \<open>Python slicing \<open>xs[a:b]\<close> (which \<open>df.iloc[a:b]\<close> follows): a negative bound counts
  from the end, and both bounds are clamped to the length.\<close>

definition clamp_index :: "nat \<Rightarrow> int \<Rightarrow> nat" where
  "clamp_index n i = (if i < 0 then nat (max 0 (int n + i)) else min n (nat i))"

definition iloc_index :: "nat \<Rightarrow> int \<Rightarrow> int \<Rightarrow> nat list" where
  "iloc_index n a b = [clamp_index n a ..< clamp_index n b]"

definition iloc :: "'r list \<Rightarrow> int \<Rightarrow> int \<Rightarrow> 'r list" where
  "iloc df a b = map (\<lambda>i. df ! i) (iloc_index (length df) a b)"

text \<open>The number of steps (lines 140-146): \<open>prediction_count\<close>, or, when that is \<open>None\<close>
  or 0, all the data after the prediction start; then the check that the data suffices.\<close>

definition effective_steps :: "int option \<Rightarrow> int \<Rightarrow> int \<Rightarrow> int \<Rightarrow> py_error + int" where
  "effective_steps count stride n prediction_start =
     (case count of
        Some steps \<Rightarrow>
          if steps \<noteq> 0 then Inr steps
          else if stride = 0 then Inl ZeroDivisionError
          else Inr ((n - prediction_start) div stride)
      | None \<Rightarrow>
          if stride = 0 then Inl ZeroDivisionError
          else Inr ((n - prediction_start) div stride))"

definition checked_steps :: "int option \<Rightarrow> int \<Rightarrow> int \<Rightarrow> int \<Rightarrow> py_error + int" where
  "checked_steps count stride n prediction_start =
     (case effective_steps count stride n prediction_start of
        Inl e \<Rightarrow> Inl e
      | Inr steps \<Rightarrow>
          if n - prediction_start < steps * stride then Inl ValueError else Inr steps)"

text \<open>\<open>range(steps)\<close>.\<close>

definition step_range :: "int \<Rightarrow> int list" where
  "step_range steps = map int [0 ..< nat steps]"

text \<open>The window of one step: the prediction span (lines 159-160) and the training
  span (lines 187-189), the latter with the train length of the feature set.\<close>

record window =
  train_start :: int
  train_end :: int
  predict_start :: int
  predict_end :: int

definition window_at :: "int \<Rightarrow> int \<Rightarrow> int \<Rightarrow> int \<Rightarrow> int \<Rightarrow> window" where
  "window_at prediction_start stride horizon train_length step =
     (let p_start = prediction_start + (step * stride);
          p_end = p_start + stride;
          t_end = p_start - horizon - 1;
          t_start = t_end - train_length;
          t_start = (if t_start < 0 then 0 else t_start)
      in \<lparr> train_start = t_start, train_end = t_end,
           predict_start = p_start, predict_end = p_end \<rparr>)"

text \<open>The table of predicted columns: its index (the row numbers of the predicted
  rows) and its named columns; \<open>None\<close> is a missing value.\<close>

record ptable =
  pindex :: "nat list"
  pcols :: "(string \<times> real option list) list"

definition empty_ptable :: ptable where
  "empty_ptable = \<lparr> pindex = [], pcols = [] \<rparr>"

text \<open>\<open>predict_labels_df[name] = y_hat\<close>: the values must be as many as the rows.\<close>

definition assign_column :: "ptable \<Rightarrow> string \<Rightarrow> real option list \<Rightarrow> py_error + ptable" where
  "assign_column t name y_hat =
     (if length y_hat \<noteq> length (pindex t) then Inl ValueError
      else Inr (t\<lparr> pcols := AList.update name y_hat (pcols t) \<rparr>))"

text \<open>\<open>labels_hat_df.append(predict_labels_df)\<close>: the rows of the second table after
  those of the first, over the union of the columns, missing values filled in.\<close>

definition column_or_nan :: "ptable \<Rightarrow> string \<Rightarrow> real option list" where
  "column_or_nan t c =
     (case map_of (pcols t) c of Some v \<Rightarrow> v | None \<Rightarrow> replicate (length (pindex t)) None)"

definition append_rows :: "ptable \<Rightarrow> ptable \<Rightarrow> ptable" where
  "append_rows a b =
     (let names = map fst (pcols a) @
                  filter (\<lambda>c. c \<notin> set (map fst (pcols a))) (map fst (pcols b))
      in \<lparr> pindex = pindex a @ pindex b,
           pcols = map (\<lambda>c. (c, column_or_nan a c @ column_or_nan b c)) names \<rparr>)"

text \<open>\<open>get_model\<close> of \<open>model_store\<close>: the first model of the given name; \<open>next\<close> on
  an exhausted generator raises \<open>StopIteration\<close>.\<close>

fun get_model :: "(string \<times> 'c) list \<Rightarrow> string \<Rightarrow> py_error + 'c" where
  "get_model [] name = Inl StopIteration"
| "get_model ((n, m) # models) name = (if n = name then Inr m else get_model models name)"

subsection \<open>What \<open>main\<close> takes from outside\<close>

text \<open>
  The trainer adapters \<open>train_predict_gb\<close>, \<open>train_predict_nn\<close> and \<open>train_predict_lc\<close>
  (module \<open>common.classifiers\<close>) are parameters of the model: one function of the
  algorithm name, the feature names, the label name, the training rows, the rows to
  predict and the model configuration, returning the predictions or the exception it
  raises. The rows of the feature matrix are of an arbitrary type \<open>'r\<close>; \<open>has_na\<close> tells
  whether a row misses a value in one of the given columns (for \<open>dropna\<close>).
  \<open>cpu_count\<close> is the size of a pool created with \<open>max_workers=None\<close>, and \<open>pick\<close> is the
  scheduler: of the tasks that are running in the pool of a step, name tag and label, it
  names the one that finishes next.
\<close>

type_synonym ('r, 'c) trainer =
  "string \<Rightarrow> string list \<Rightarrow> string \<Rightarrow> 'r list \<Rightarrow> 'r list \<Rightarrow> 'c \<Rightarrow> py_error + real option list"

record ('r, 'c) env =
  models :: "(string \<times> 'c) list"
  train_predict :: "('r, 'c) trainer"
  has_na :: "string list \<Rightarrow> 'r \<Rightarrow> bool"
  cpu_count :: nat
  pick :: "int \<Rightarrow> string \<Rightarrow> string \<Rightarrow> nat list \<Rightarrow> nat"

subsection \<open>The process pool\<close>

text \<open>A submitted task is a closure; its future is its position in the list of
  submissions. The pool runs at most \<open>workers\<close> tasks at a time, taking them in the
  order of submission; the scheduler names the running task that finishes next (the
  first one, should it name a task that is not running). \<open>completion_order\<close> is the
  order in which the futures complete.\<close>

type_synonym task = "unit \<Rightarrow> py_error + real option list"

function completion_order :: "nat \<Rightarrow> (nat list \<Rightarrow> nat) \<Rightarrow> nat list \<Rightarrow> nat list" where
  "completion_order workers sched pending =
     (if pending = [] then []
      else
        (let running = take (max 1 workers) pending;
             i = (if sched running \<in> set running then sched running else hd running)
         in i # completion_order workers sched (remove1 i pending)))"
  by pat_completeness auto
termination
proof (relation "measure (\<lambda>(workers, sched, pending). length pending)")
  show "wf (measure (\<lambda>(workers, sched, pending). length pending))" by simp
next
  fix workers :: nat and sched :: "nat list \<Rightarrow> nat" and pending :: "nat list" and running i
  assume ne: "pending \<noteq> []" and r: "running = take (max 1 workers) pending"
    and i: "i = (if sched running \<in> set running then sched running else hd running)"
  from ne r have "running \<noteq> []" by (cases pending) simp_all
  with i have "i \<in> set running" by simp
  with r have "i \<in> set pending" by (auto dest: in_set_takeD)
  then have "length (remove1 i pending) < length pending"
    by (simp add: length_remove1) (cases pending, simp_all)
  then show "((workers, sched, remove1 i pending), (workers, sched, pending))
      \<in> measure (\<lambda>(workers, sched, pending). length pending)" by simp
qed

declare completion_order.simps [simp del]

text \<open>The results of the futures once the tasks have run in a given order, and
  \<open>future.result()\<close>, which waits for a task that has not run yet.\<close>

definition run_pool :: "nat list \<Rightarrow> task list \<Rightarrow> (nat \<rightharpoonup> py_error + real option list)" where
  "run_pool order tasks =
     fold (\<lambda>i finished. if i < length tasks then finished(i \<mapsto> (tasks ! i) ()) else finished)
       order Map.empty"

definition future_result ::
  "(nat \<rightharpoonup> py_error + real option list) \<Rightarrow> task list \<Rightarrow> nat \<Rightarrow> py_error + real option list" where
  "future_result finished tasks i =
     (case finished i of Some r \<Rightarrow> r | None \<Rightarrow> (tasks ! i) ())"

subsection \<open>Training and predicting one label\<close>

text \<open>The three \<open>if "gb" in P.algorithms\<close>, \<open>"nn"\<close>, \<open>"lc"\<close> blocks, in the order of the
  source.\<close>

definition algo_order :: "string list" where
  "algo_order = [''gb'', ''nn'', ''lc'']"

text \<open>Sequential execution (\<open>use_multiprocessing = False\<close>): each adapter is called in
  turn and its result is assigned to its column; \<open>run\<close> is the call of the adapter of an
  algorithm on the data of the label, \<open>name_of\<close> gives \<open>label + name_tag + algorithm\<close>.\<close>

fun sequential_algos ::
  "string list \<Rightarrow> (string \<times> 'c) list \<Rightarrow> (string \<Rightarrow> 'c \<Rightarrow> py_error + real option list) \<Rightarrow>
   (string \<Rightarrow> string) \<Rightarrow> string list \<Rightarrow> ptable \<Rightarrow> py_error + ptable" where
  "sequential_algos algos ms run name_of [] t = Inr t"
| "sequential_algos algos ms run name_of (a # rest) t =
     (if a \<in> set algos then
        (case get_model ms a of Inl e \<Rightarrow> Inl e | Inr m \<Rightarrow>
         case run a m of Inl e \<Rightarrow> Inl e | Inr y_hat \<Rightarrow>
         case assign_column t (name_of a) y_hat of Inl e \<Rightarrow> Inl e | Inr t' \<Rightarrow>
           sequential_algos algos ms run name_of rest t')
      else sequential_algos algos ms run name_of rest t)"

text \<open>Parallel execution: the submissions fill the dictionary \<open>execution_results\<close>
  (column name to future) and the list of submitted tasks.\<close>

fun submit_algos ::
  "string list \<Rightarrow> (string \<times> 'c) list \<Rightarrow> (string \<Rightarrow> 'c \<Rightarrow> py_error + real option list) \<Rightarrow>
   (string \<Rightarrow> string) \<Rightarrow> string list \<Rightarrow> (string \<times> nat) list \<times> task list \<Rightarrow>
   py_error + (string \<times> nat) list \<times> task list" where
  "submit_algos algos ms run name_of [] submitted = Inr submitted"
| "submit_algos algos ms run name_of (a # rest) (execution_results, tasks) =
     (if a \<in> set algos then
        (case get_model ms a of Inl e \<Rightarrow> Inl e | Inr m \<Rightarrow>
           submit_algos algos ms run name_of rest
             (AList.update (name_of a) (length tasks) execution_results, tasks @ [\<lambda>_. run a m]))
      else submit_algos algos ms run name_of rest (execution_results, tasks))"

text \<open>The loop over \<open>execution_results.items()\<close>: \<open>future.result()\<close> raises the exception
  of a failed task, so the test of \<open>future.exception()\<close> after it never fires.\<close>

fun collect_results ::
  "(nat \<rightharpoonup> py_error + real option list) \<Rightarrow> task list \<Rightarrow> (string \<times> nat) list \<Rightarrow> ptable \<Rightarrow>
   py_error + ptable" where
  "collect_results finished tasks [] t = Inr t"
| "collect_results finished tasks ((score_column_name, future) # rest) t =
     (case future_result finished tasks future of Inl e \<Rightarrow> Inl e | Inr y_hat \<Rightarrow>
      case assign_column t score_column_name y_hat of Inl e \<Rightarrow> Inl e | Inr t' \<Rightarrow>
        collect_results finished tasks rest t')"

text \<open>The pool of one label: \<open>ProcessPoolExecutor\<close> refuses \<open>max_workers=0\<close>; leaving
  the \<open>with\<close> block waits for every submitted task.\<close>

definition parallel_algos ::
  "nat option \<Rightarrow> nat \<Rightarrow> (nat list \<Rightarrow> nat) \<Rightarrow> string list \<Rightarrow> (string \<times> 'c) list \<Rightarrow>
   (string \<Rightarrow> 'c \<Rightarrow> py_error + real option list) \<Rightarrow> (string \<Rightarrow> string) \<Rightarrow> ptable \<Rightarrow>
   py_error + ptable" where
  "parallel_algos workers cpus sched algos ms run name_of t =
     (if workers = Some 0 then Inl ValueError
      else
        (case submit_algos algos ms run name_of algo_order ([], []) of
           Inl e \<Rightarrow> Inl e
         | Inr (execution_results, tasks) \<Rightarrow>
             (let n = (case workers of None \<Rightarrow> cpus | Some k \<Rightarrow> k);
                  order = completion_order n sched [0 ..< length tasks];
                  finished = run_pool order tasks
              in collect_results finished tasks execution_results t)))"

subsection \<open>One feature set, one step, the whole loop\<close>

text \<open>The loop over the labels of one feature set (lines 199-245).\<close>

fun label_loop ::
  "params \<Rightarrow> ('r, 'c) env \<Rightarrow> int \<Rightarrow> string \<Rightarrow> string list \<Rightarrow> 'r list \<Rightarrow> 'r list \<Rightarrow>
   string list \<Rightarrow> ptable \<Rightarrow> py_error + ptable" where
  "label_loop P E step name_tag features train_df predict_df [] t = Inr t"
| "label_loop P E step name_tag features train_df predict_df (label # rest) t =
     (case
        (if use_multiprocessing P then
           parallel_algos (max_workers P) (cpu_count E) (pick E step name_tag label)
             (algorithms P) (models E)
             (\<lambda>a m. train_predict E a features label train_df predict_df m)
             (\<lambda>a. label @ name_tag @ a) t
         else
           sequential_algos (algorithms P) (models E)
             (\<lambda>a m. train_predict E a features label train_df predict_df m)
             (\<lambda>a. label @ name_tag @ a) algo_order t)
      of Inl e \<Rightarrow> Inl e
       | Inr t' \<Rightarrow> label_loop P E step name_tag features train_df predict_df rest t')"

text \<open>One feature set of one step (lines 171-245, and again 250-324): the training
  rows are those of the training span that miss no feature value.\<close>

definition feature_block ::
  "params \<Rightarrow> app_config \<Rightarrow> ('r, 'c) env \<Rightarrow> 'r list \<Rightarrow> int \<Rightarrow> int \<Rightarrow> string \<Rightarrow> int \<Rightarrow>
   string list \<Rightarrow> ptable \<Rightarrow> py_error + ptable" where
  "feature_block P C E df prediction_start step name_tag train_length features t =
     (let w = window_at prediction_start (prediction_length P) (label_horizon C) train_length step;
          predict_df = iloc df (predict_start w) (predict_end w);
          train_df = filter (\<lambda>r. \<not> has_na E features r) (iloc df (train_start w) (train_end w))
      in label_loop P E step name_tag features train_df predict_df (labels C) t)"

text \<open>The body of the loop over the steps (lines 155-324): the table of one step
  starts with the index of the predicted rows and no column.\<close>

definition run_step ::
  "params \<Rightarrow> app_config \<Rightarrow> ('r, 'c) env \<Rightarrow> 'r list \<Rightarrow> int \<Rightarrow> int \<Rightarrow> py_error + ptable" where
  "run_step P C E df prediction_start step =
     (let p_start = prediction_start + (step * prediction_length P);
          p_end = p_start + prediction_length P;
          t0 = \<lparr> pindex = iloc_index (length df) p_start p_end, pcols = [] \<rparr>
      in
        (case
           (if ''kline'' \<in> set (feature_sets P) then
              feature_block P C E df prediction_start step ''_k_'' (kline_train_length P)
                (features_kline C) t0
            else Inr t0)
         of Inl e \<Rightarrow> Inl e
          | Inr t1 \<Rightarrow>
              (if ''futur'' \<in> set (feature_sets P) then
                 feature_block P C E df prediction_start step ''_f_'' (futur_train_length P)
                   (features_futur C) t1
               else Inr t1)))"

fun rolling_loop ::
  "params \<Rightarrow> app_config \<Rightarrow> ('r, 'c) env \<Rightarrow> 'r list \<Rightarrow> int \<Rightarrow> int list \<Rightarrow> ptable \<Rightarrow>
   py_error + ptable" where
  "rolling_loop P C E df prediction_start [] labels_hat_df = Inr labels_hat_df"
| "rolling_loop P C E df prediction_start (step # rest) labels_hat_df =
     (case run_step P C E df prediction_start step of
        Inl e \<Rightarrow> Inl e
      | Inr predict_labels_df \<Rightarrow>
          rolling_loop P C E df prediction_start rest (append_rows labels_hat_df predict_labels_df))"

subsection \<open>The stored output\<close>

text \<open>\<open>labels_hat_df.join(df[out_columns + labels])\<close> and \<open>to_csv\<close>: the predicted
  columns next to the original row of each predicted row; \<open>join\<close> refuses columns of the
  same name on both sides. The table returned is the table written to the output
  file; an exception (\<open>Inl\<close>) leaves the loop and \<open>main\<close> before anything is written.
  The score report computed afterwards from the stored table is not part of the model.\<close>

definition out_columns :: "string list" where
  "out_columns = [''timestamp'', ''open'', ''high'', ''low'', ''close'', ''volume'', ''close_time'']"

record 'r out_table =
  predictions :: ptable
  original :: "'r option list"

definition store :: "app_config \<Rightarrow> 'r list \<Rightarrow> ptable \<Rightarrow> py_error + 'r out_table" where
  "store C df labels_hat_df =
     (if \<exists>c \<in> set (map fst (pcols labels_hat_df)). c \<in> set (out_columns @ labels C)
      then Inl ValueError
      else Inr \<lparr> predictions = labels_hat_df,
                 original = map (\<lambda>i. if i < length df then Some (df ! i) else None)
                              (pindex labels_hat_df) \<rparr>)"

definition main ::
  "params \<Rightarrow> app_config \<Rightarrow> ('r, 'c) env \<Rightarrow> 'r list \<Rightarrow> int \<Rightarrow> py_error + 'r out_table" where
  "main P C E df prediction_start =
     (case checked_steps (prediction_count P) (prediction_length P) (int (length df))
             prediction_start of
        Inl e \<Rightarrow> Inl e
      | Inr steps \<Rightarrow>
          (case rolling_loop P C E df prediction_start (step_range steps) empty_ptable of
             Inl e \<Rightarrow> Inl e
           | Inr labels_hat_df \<Rightarrow> store C df labels_hat_df))"

subsection \<open>The columns a window should hold\<close>

text \<open>
  The specification's reading of the dispatcher: one column per (label, algorithm)
  pair, named \<open>label + name_tag + algorithm\<close>, in the iteration order of the pairs
  (the labels in the order of the configuration, for each label the algorithms in the
  order of the three blocks of the source), each holding what the adapter returns for
  the rows to predict. \<open>window_columns\<close> lists them for the enabled feature sets, and
  \<open>columns_aligned\<close> says that every column has one value per row of the index.
\<close>

definition task_column ::
  "('r, 'c) env \<Rightarrow> string list \<Rightarrow> 'r list \<Rightarrow> 'r list \<Rightarrow> string \<Rightarrow> string \<Rightarrow> string \<Rightarrow>
   string \<times> real option list" where
  "task_column E features train_df predict_df name_tag label a =
     (label @ name_tag @ a,
      case get_model (models E) a of
        Inl e \<Rightarrow> []
      | Inr m \<Rightarrow>
          (case train_predict E a features label train_df predict_df m of
             Inl e \<Rightarrow> [] | Inr y_hat \<Rightarrow> y_hat))"

definition block_columns ::
  "params \<Rightarrow> app_config \<Rightarrow> ('r, 'c) env \<Rightarrow> 'r list \<Rightarrow> int \<Rightarrow> int \<Rightarrow> string \<Rightarrow> int \<Rightarrow>
   string list \<Rightarrow> (string \<times> real option list) list" where
  "block_columns P C E df prediction_start step name_tag train_length features =
     (let w = window_at prediction_start (prediction_length P) (label_horizon C) train_length step;
          predict_df = iloc df (predict_start w) (predict_end w);
          train_df = filter (\<lambda>r. \<not> has_na E features r) (iloc df (train_start w) (train_end w))
      in concat (map (\<lambda>label. map (task_column E features train_df predict_df name_tag label)
                                 (filter (\<lambda>a. a \<in> set (algorithms P)) algo_order))
                     (labels C)))"

definition window_columns ::
  "params \<Rightarrow> app_config \<Rightarrow> ('r, 'c) env \<Rightarrow> 'r list \<Rightarrow> int \<Rightarrow> int \<Rightarrow>
   (string \<times> real option list) list" where
  "window_columns P C E df prediction_start step =
     (if ''kline'' \<in> set (feature_sets P)
      then block_columns P C E df prediction_start step ''_k_'' (kline_train_length P) (features_kline C)
      else []) @
     (if ''futur'' \<in> set (feature_sets P)
      then block_columns P C E df prediction_start step ''_f_'' (futur_train_length P) (features_futur C)
      else [])"

definition columns_aligned :: "ptable \<Rightarrow> bool" where
  "columns_aligned t \<longleftrightarrow> (\<forall>v \<in> snd ` set (pcols t). length v = length (pindex t))"

subsection \<open>A small run\<close>

text \<open>A run of three windows with one label and one algorithm on a table of ten
  rows (a row is its own number): two rows are predicted per step from row 4 on, the
  label horizon is 1, and the adapter predicts, for each row, the length of the name of
  the model plus the number of training rows plus the row number. \<open>late_first\<close> is a scheduler that lets the running task
  submitted last finish first, \<open>early_first\<close> one that lets the first finish first.
  \<open>flaky_trainer\<close> is an adapter that raises once row 6 is among the rows to predict.\<close>

definition example_params :: params where
  "example_params = \<lparr> feature_sets = [''kline''], algorithms = [''nn''],
     kline_train_length = 4, futur_train_length = 4,
     prediction_length = 2, prediction_count = Some 3,
     use_multiprocessing = True, max_workers = Some 2 \<rparr>"

definition example_config :: app_config where
  "example_config = \<lparr> label_horizon = 1, labels = [''high''],
     features_kline = [''close_1''], features_futur = [] \<rparr>"

definition example_trainer :: "(nat, string) trainer" where
  "example_trainer a features label train_rows test_rows m =
     Inr (map (\<lambda>r. Some (real (length m) + real (length train_rows) + real r)) test_rows)"

definition late_first :: "int \<Rightarrow> string \<Rightarrow> string \<Rightarrow> nat list \<Rightarrow> nat" where
  "late_first step name_tag label running = last running"

definition early_first :: "int \<Rightarrow> string \<Rightarrow> string \<Rightarrow> nat list \<Rightarrow> nat" where
  "early_first step name_tag label running = hd running"

definition flaky_trainer :: "(nat, string) trainer" where
  "flaky_trainer a features label train_rows test_rows m =
     (if 6 \<in> set test_rows then Inl (TrainingError ''diverged'')
      else example_trainer a features label train_rows test_rows m)"

definition example_env :: "(nat, string) env" where
  "example_env = \<lparr> models = [(''gb'', ''trees''), (''nn'', ''layers''), (''lc'', ''linear'')],
     train_predict = example_trainer, has_na = (\<lambda>features r. False),
     cpu_count = 4, pick = late_first \<rparr>"

definition example_df :: "nat list" where
  "example_df = [0, 1, 2, 3, 4, 5, 6, 7, 8, 9]"

section \<open>Properties of the trade simulator\<close>

lemma run_from_append: "run_from s (rows @ [r]) = sim_step (run_from s rows) r"
  by (induction rows arbitrary: s) simp_all

lemma simulate_snoc: "simulate (rows @ [r]) = sim_step (simulate rows) r"
  by (simp add: simulate_def run_from_append)

lemma step_buy:
  "is_buy_mode s \<Longrightarrow> bot_score \<Longrightarrow>
     sim_step s (index, top_score, bot_score, price) =
       s\<lparr> performance_short := performance_short s +
               (if longs s = [] then 0 else trade_price (last (longs s)) - price),
           short_count := short_count s + 1,
           short_profitable := short_profitable s +
               (if (if longs s = [] then 0 else trade_price (last (longs s)) - price) > 0 then 1 else 0),
           shorts := shorts s @ [(index, True, price,
               (if longs s = [] then 0 else trade_price (last (longs s)) - price))],
           is_buy_mode := False \<rparr>"
  by (simp add: Let_def)

lemma step_sell:
  "\<not> is_buy_mode s \<Longrightarrow> top_score \<Longrightarrow>
     sim_step s (index, top_score, bot_score, price) =
       s\<lparr> performance_long := performance_long s +
               (if shorts s = [] then 0 else price - trade_price (last (shorts s))),
           long_count := long_count s + 1,
           long_profitable := long_profitable s +
               (if (if shorts s = [] then 0 else price - trade_price (last (shorts s))) > 0 then 1 else 0),
           longs := longs s @ [(index, False, price,
               (if shorts s = [] then 0 else price - trade_price (last (shorts s))))],
           is_buy_mode := True \<rparr>"
  by (simp add: Let_def)

lemma step_noop:
  "\<not> (is_buy_mode s \<and> bot_score) \<Longrightarrow> \<not> (\<not> is_buy_mode s \<and> top_score) \<Longrightarrow>
     sim_step s (index, top_score, bot_score, price) = s"
  by auto

lemma example_run:
  "performance_score example_signals ''sell_signal'' ''buy_signal'' ''price'' =
     Inr (2, 3, 1, 2, 1, 1, [(2, False, 11, 2)], [(1, True, 9, 0), (4, True, 8, 3)])"
  by (simp add: performance_score_def example_signals_def getitem_def itertuples3_def
      simulate_def init_state_def result_of_def Let_def trade_price_def upt_rec)

text \<open>
  Claim C2. \<open>performance_score\<close> starts in buy mode (\<open>WAIT_SELL_CLOSE\<close>) and folds the
  loop body once over the rows, in order: the state after \<open>rows @ [r]\<close> is one step from
  the state after \<open>rows\<close>, and the returned tuple is read off the final state. In buy mode
  a true buy signal records a short trade whose profit is the price of the last recorded
  long minus the current price (0 when no long is recorded), adds it to
  \<open>performance_short\<close>, increments \<open>short_count\<close> (and \<open>short_profitable\<close> when the profit
  is positive), appends \<open>(row, mode, price, profit)\<close> to \<open>shorts\<close> and leaves buy mode,
  touching nothing of the long bookkeeping; in the other mode a true sell signal does
  the symmetric update of the long bookkeeping with profit = current price minus the
  price of the last recorded short, and returns to buy mode; every other row leaves the
  state unchanged. On the example of the specification the result is
  \<open>performance_long = 2\<close>, \<open>performance_short = 3\<close>, \<open>long_count = 1\<close>, \<open>short_count = 2\<close>.
\<close>

theorem performance_score_one_pass:
  "is_buy_mode init_state
   \<and> simulate [] = init_state
   \<and> simulate (rows @ [r]) = sim_step (simulate rows) r
   \<and> (getitem df sell_c = Inr sell \<and> getitem df buy_c = Inr buy \<and> getitem df price_c = Inr price \<longrightarrow>
        performance_score df sell_c buy_c price_c = Inr (result_of (simulate (itertuples3 sell buy price))))
   \<and> (is_buy_mode s \<and> bot_score \<longrightarrow>
        (let profit = (if longs s = [] then 0 else trade_price (last (longs s)) - p);
             s' = sim_step s (index, top_score, bot_score, p)
         in performance_short s' = performance_short s + profit
          \<and> short_count s' = short_count s + 1
          \<and> short_profitable s' = short_profitable s + (if profit > 0 then 1 else 0)
          \<and> shorts s' = shorts s @ [(index, True, p, profit)]
          \<and> \<not> is_buy_mode s'
          \<and> performance_long s' = performance_long s \<and> long_count s' = long_count s
          \<and> long_profitable s' = long_profitable s \<and> longs s' = longs s))
   \<and> (\<not> is_buy_mode s \<and> top_score \<longrightarrow>
        (let profit = (if shorts s = [] then 0 else p - trade_price (last (shorts s)));
             s' = sim_step s (index, top_score, bot_score, p)
         in performance_long s' = performance_long s + profit
          \<and> long_count s' = long_count s + 1
          \<and> long_profitable s' = long_profitable s + (if profit > 0 then 1 else 0)
          \<and> longs s' = longs s @ [(index, False, p, profit)]
          \<and> is_buy_mode s'
          \<and> performance_short s' = performance_short s \<and> short_count s' = short_count s
          \<and> short_profitable s' = short_profitable s \<and> shorts s' = shorts s))
   \<and> (\<not> (is_buy_mode s \<and> bot_score) \<and> \<not> (\<not> is_buy_mode s \<and> top_score) \<longrightarrow>
        sim_step s (index, top_score, bot_score, p) = s)
   \<and> performance_score example_signals ''sell_signal'' ''buy_signal'' ''price'' =
        Inr (2, 3, 1, 2, 1, 1, [(2, False, 11, 2)], [(1, True, 9, 0), (4, True, 8, 3)])"
proof -
  have c1: "is_buy_mode init_state" by (simp add: init_state_def)
  have c2: "simulate [] = init_state" by (simp add: simulate_def)
  have c4: "getitem df sell_c = Inr sell \<and> getitem df buy_c = Inr buy \<and> getitem df price_c = Inr price \<longrightarrow>
        performance_score df sell_c buy_c price_c = Inr (result_of (simulate (itertuples3 sell buy price)))"
    by (simp add: performance_score_def)
  have c5: "is_buy_mode s \<and> bot_score \<longrightarrow>
        (let profit = (if longs s = [] then 0 else trade_price (last (longs s)) - p);
             s' = sim_step s (index, top_score, bot_score, p)
         in performance_short s' = performance_short s + profit
          \<and> short_count s' = short_count s + 1
          \<and> short_profitable s' = short_profitable s + (if profit > 0 then 1 else 0)
          \<and> shorts s' = shorts s @ [(index, True, p, profit)]
          \<and> \<not> is_buy_mode s'
          \<and> performance_long s' = performance_long s \<and> long_count s' = long_count s
          \<and> long_profitable s' = long_profitable s \<and> longs s' = longs s)"
    by (simp add: step_buy Let_def)
  have c6: "\<not> is_buy_mode s \<and> top_score \<longrightarrow>
        (let profit = (if shorts s = [] then 0 else p - trade_price (last (shorts s)));
             s' = sim_step s (index, top_score, bot_score, p)
         in performance_long s' = performance_long s + profit
          \<and> long_count s' = long_count s + 1
          \<and> long_profitable s' = long_profitable s + (if profit > 0 then 1 else 0)
          \<and> longs s' = longs s @ [(index, False, p, profit)]
          \<and> is_buy_mode s'
          \<and> performance_short s' = performance_short s \<and> short_count s' = short_count s
          \<and> short_profitable s' = short_profitable s \<and> shorts s' = shorts s)"
    by (simp add: step_sell Let_def)
  have c7: "\<not> (is_buy_mode s \<and> bot_score) \<and> \<not> (\<not> is_buy_mode s \<and> top_score) \<longrightarrow>
        sim_step s (index, top_score, bot_score, p) = s"
    using step_noop by blast
  from c1 c2 simulate_snoc c4 c5 c6 c7 example_run show ?thesis by blast
qed

text \<open>The theorem at the rows of the example: row 1 (a buy signal in buy mode) opens
  the first short with profit 0, row 2 (a sell signal in the other mode) records the long
  with profit \<open>11 - 9 = 2\<close>, and row 0 with only a sell signal is a no-op in buy mode.\<close>

theorem performance_score_one_pass_witness:
  "is_buy_mode init_state
   \<and> shorts (sim_step init_state (1, False, True, 9)) = [(1, True, 9, 0)]
   \<and> short_count (sim_step init_state (1, False, True, 9)) = 1
   \<and> performance_short (sim_step init_state (1, False, True, 9)) = 0
   \<and> \<not> is_buy_mode (sim_step init_state (1, False, True, 9))
   \<and> longs (sim_step (sim_step init_state (1, False, True, 9)) (2, True, False, 11)) = [(2, False, 11, 2)]
   \<and> performance_long (sim_step (sim_step init_state (1, False, True, 9)) (2, True, False, 11)) = 2
   \<and> sim_step init_state (0, True, False, 10) = init_state
   \<and> getitem example_signals ''price'' = Inr (NumCol [10, 9, 11, 10, 8])
   \<and> performance_score example_signals ''sell_signal'' ''buy_signal'' ''price'' =
        Inr (result_of (simulate (itertuples3 (BoolCol [False, False, True, False, False])
           (BoolCol [False, True, False, False, True]) (NumCol [10, 9, 11, 10, 8]))))"
proof -
  define s1 where "s1 = sim_step init_state (1, False, True, 9)"
  have m: "is_buy_mode init_state" and l0: "longs init_state = []"
    by (simp_all add: init_state_def)
  have a: "shorts s1 = [(1, True, 9, 0)] \<and> short_count s1 = 1 \<and> performance_short s1 = 0
      \<and> \<not> is_buy_mode s1"
    using performance_score_one_pass [where s = init_state and bot_score = True and p = 9
        and index = 1 and top_score = False] m l0
    by (simp add: s1_def Let_def init_state_def)
  have b: "longs (sim_step s1 (2, True, False, 11)) = [(2, False, 11, 2)]
      \<and> performance_long (sim_step s1 (2, True, False, 11)) = 2"
    using performance_score_one_pass [where s = s1 and bot_score = False and p = 11
        and index = 2 and top_score = True] a
    by (simp add: s1_def Let_def init_state_def trade_price_def)
  have c: "sim_step init_state (0, True, False, 10) = init_state"
    using performance_score_one_pass [where s = init_state and bot_score = False and p = 10
        and index = 0 and top_score = True] m
    by simp
  have g: "getitem example_signals ''price'' = Inr (NumCol [10, 9, 11, 10, 8])"
     "getitem example_signals ''sell_signal'' = Inr (BoolCol [False, False, True, False, False])"
     "getitem example_signals ''buy_signal'' = Inr (BoolCol [False, True, False, False, True])"
    by (simp_all add: getitem_def example_signals_def)
  have d: "performance_score example_signals ''sell_signal'' ''buy_signal'' ''price'' =
        Inr (result_of (simulate (itertuples3 (BoolCol [False, False, True, False, False])
           (BoolCol [False, True, False, False, True]) (NumCol [10, 9, 11, 10, 8]))))"
    using performance_score_one_pass [where df = example_signals and sell_c = "''sell_signal''"
        and sell = "BoolCol [False, False, True, False, False]" and buy_c = "''buy_signal''"
        and buy = "BoolCol [False, True, False, False, True]"
        and price_c = "''price''" and price = "NumCol [10, 9, 11, 10, 8]"] g
    by blast
  from m a b c g(1) d show ?thesis unfolding s1_def by blast
qed

lemma bookkeeping_init: "bookkeeping init_state"
  by (simp add: bookkeeping_def init_state_def)

lemma bookkeeping_step: "bookkeeping s \<Longrightarrow> bookkeeping (sim_step s r)"
  by (cases r) (auto simp add: bookkeeping_def Let_def trade_profit_def split: if_splits)

lemma bookkeeping_run_from: "bookkeeping s \<Longrightarrow> bookkeeping (run_from s rows)"
  by (induction rows arbitrary: s) (simp_all add: bookkeeping_step)

lemma bookkeeping_simulate: "bookkeeping (simulate rows)"
  by (simp add: simulate_def bookkeeping_run_from bookkeeping_init)

lemma step_records:
  "shorts (sim_step s r) = shorts s \<and> longs (sim_step s r) = longs s \<or>
   is_buy_mode s \<and> longs (sim_step s r) = longs s \<and> length (shorts (sim_step s r)) = length (shorts s) + 1 \<or>
   \<not> is_buy_mode s \<and> shorts (sim_step s r) = shorts s \<and> length (longs (sim_step s r)) = length (longs s) + 1"
  by (cases r) (simp add: Let_def)

text \<open>
  Claim C10. After every prefix \<open>take n rows\<close> of the input the bookkeeping of
  \<open>performance_score\<close> is consistent: \<open>long_count\<close> and \<open>short_count\<close> are the lengths of
  \<open>longs\<close> and \<open>shorts\<close>, \<open>performance_long\<close> and \<open>performance_short\<close> are the sums of the
  profit entries of \<open>longs\<close> and \<open>shorts\<close>, the profitable counters lie between 0 and the
  trade counters, \<open>short_count - long_count\<close> is 0 or 1, and it is 0 exactly in buy mode.
  Recorded trades alternate, starting with a short: processing one more row records
  nothing, or records one short when the counts were equal, or records one long when
  the shorts were one ahead.
\<close>

theorem performance_score_bookkeeping:
  "(let s = simulate (take n rows) in
     long_count s = int (length (longs s)) \<and>
     short_count s = int (length (shorts s)) \<and>
     performance_long s = sum_list (map trade_profit (longs s)) \<and>
     performance_short s = sum_list (map trade_profit (shorts s)) \<and>
     0 \<le> long_profitable s \<and> long_profitable s \<le> long_count s \<and>
     0 \<le> short_profitable s \<and> short_profitable s \<le> short_count s \<and>
     (short_count s - long_count s = 0 \<or> short_count s - long_count s = 1) \<and>
     (is_buy_mode s = (short_count s = long_count s)))
   \<and> (let s = simulate rows; s' = simulate (rows @ [r]) in
        (shorts s' = shorts s \<and> longs s' = longs s) \<or>
        (short_count s = long_count s \<and> longs s' = longs s \<and>
           length (shorts s') = length (shorts s) + 1) \<or>
        (short_count s = long_count s + 1 \<and> shorts s' = shorts s \<and>
           length (longs s') = length (longs s) + 1))"
proof -
  have a: "bookkeeping (simulate (take n rows))" by (rule bookkeeping_simulate)
  have b: "bookkeeping (simulate rows)" by (rule bookkeeping_simulate)
  from a have first: "let s = simulate (take n rows) in
     long_count s = int (length (longs s)) \<and>
     short_count s = int (length (shorts s)) \<and>
     performance_long s = sum_list (map trade_profit (longs s)) \<and>
     performance_short s = sum_list (map trade_profit (shorts s)) \<and>
     0 \<le> long_profitable s \<and> long_profitable s \<le> long_count s \<and>
     0 \<le> short_profitable s \<and> short_profitable s \<le> short_count s \<and>
     (short_count s - long_count s = 0 \<or> short_count s - long_count s = 1) \<and>
     (is_buy_mode s = (short_count s = long_count s))"
    unfolding bookkeeping_def Let_def by (cases "is_buy_mode (simulate (take n rows))") simp_all
  from b have m: "short_count (simulate rows) - long_count (simulate rows) =
      (if is_buy_mode (simulate rows) then 0 else 1)"
    by (simp add: bookkeeping_def)
  have second: "let s = simulate rows; s' = simulate (rows @ [r]) in
        (shorts s' = shorts s \<and> longs s' = longs s) \<or>
        (short_count s = long_count s \<and> longs s' = longs s \<and>
           length (shorts s') = length (shorts s) + 1) \<or>
        (short_count s = long_count s + 1 \<and> shorts s' = shorts s \<and>
           length (longs s') = length (longs s) + 1)"
    unfolding Let_def simulate_snoc
    using step_records [of "simulate rows" r] m
    by (cases "is_buy_mode (simulate rows)") auto
  from first second show ?thesis by blast
qed

section \<open>Properties of the rolling loop\<close>

lemma clamp_index_in_range: "0 \<le> i \<Longrightarrow> i \<le> int n \<Longrightarrow> clamp_index n i = nat i"
  by (auto simp: clamp_index_def min_def)

lemma iloc_index_in_range:
  "0 \<le> a \<Longrightarrow> a \<le> b \<Longrightarrow> b \<le> int n \<Longrightarrow> iloc_index n a b = [nat a ..< nat b]"
  by (simp add: iloc_index_def clamp_index_in_range)

lemma upt_glue: "a \<le> b \<Longrightarrow> b \<le> c \<Longrightarrow> [a ..< b] @ [b ..< c] = [a ..< (c::nat)]"
  by (metis le_Suc_ex upt_add_eq_append)

lemma concat_windows:
  assumes "0 \<le> ps" and "0 \<le> stride" and "ps + int k * stride \<le> int n"
  shows "concat (map (\<lambda>i. iloc_index n (ps + i * stride) (ps + i * stride + stride))
           (map int [0 ..< k])) = [nat ps ..< nat (ps + int k * stride)]"
  using assms
proof (induction k)
  case 0
  then show ?case by simp
next
  case (Suc k)
  have le: "int k * stride \<le> int (Suc k) * stride"
    using Suc.prems(2) by (simp add: algebra_simps)
  then have bound: "ps + int k * stride \<le> int n" using Suc.prems(3) by linarith
  have ih: "concat (map (\<lambda>i. iloc_index n (ps + i * stride) (ps + i * stride + stride))
           (map int [0 ..< k])) = [nat ps ..< nat (ps + int k * stride)]"
    using Suc.IH Suc.prems(1,2) bound by blast
  have nn: "0 \<le> int k * stride" using Suc.prems(2) by simp
  have e: "ps + int k * stride + stride = ps + int (Suc k) * stride"
    by (simp add: algebra_simps)
  have last: "iloc_index n (ps + int k * stride) (ps + int k * stride + stride)
      = [nat (ps + int k * stride) ..< nat (ps + int (Suc k) * stride)]"
    unfolding e using Suc.prems nn le by (intro iloc_index_in_range) linarith+
  have "concat (map (\<lambda>i. iloc_index n (ps + i * stride) (ps + i * stride + stride))
           (map int [0 ..< Suc k]))
      = [nat ps ..< nat (ps + int k * stride)] @
        [nat (ps + int k * stride) ..< nat (ps + int (Suc k) * stride)]"
    using ih last by simp
  also have "\<dots> = [nat ps ..< nat (ps + int (Suc k) * stride)]"
    using Suc.prems(1) nn le by (intro upt_glue) linarith+
  finally show ?case .
qed

lemma assign_column_index: "assign_column t name y = Inr t' \<Longrightarrow> pindex t' = pindex t"
  by (auto simp: assign_column_def split: if_splits)

lemma sequential_algos_index:
  "sequential_algos algos ms run name_of as t = Inr t' \<Longrightarrow> pindex t' = pindex t"
proof (induction as arbitrary: t)
  case Nil
  then show ?case by simp
next
  case (Cons a as)
  show ?case
  proof (cases "a \<in> set algos")
    case False
    with Cons show ?thesis by simp
  next
    case True
    with Cons.prems obtain m y t1 where "assign_column t (name_of a) y = Inr t1"
      and "sequential_algos algos ms run name_of as t1 = Inr t'"
      by (auto split: sum.splits)
    then show ?thesis using Cons.IH assign_column_index by fastforce
  qed
qed

lemma collect_results_index:
  "collect_results finished tasks ers t = Inr t' \<Longrightarrow> pindex t' = pindex t"
proof (induction ers arbitrary: t)
  case Nil
  then show ?case by simp
next
  case (Cons p ers)
  obtain c f where p: "p = (c, f)" by (cases p)
  from Cons.prems obtain y t1 where "assign_column t c y = Inr t1"
      and "collect_results finished tasks ers t1 = Inr t'"
    unfolding p by (auto split: sum.splits)
  then show ?case using Cons.IH assign_column_index by fastforce
qed

lemma parallel_algos_index:
  assumes "parallel_algos workers cpus sched algos ms run name_of t = Inr t'"
  shows "pindex t' = pindex t"
proof -
  from assms obtain finished tasks ers where "collect_results finished tasks ers t = Inr t'"
    unfolding parallel_algos_def Let_def
    by (auto split: if_splits sum.splits prod.splits)
  then show ?thesis by (rule collect_results_index)
qed

lemma label_loop_index:
  "label_loop P E step name_tag features train_df predict_df ls t = Inr t' \<Longrightarrow> pindex t' = pindex t"
proof (induction ls arbitrary: t)
  case Nil
  then show ?case by simp
next
  case (Cons l ls)
  show ?case
  proof (cases "use_multiprocessing P")
    case True
    with Cons.prems obtain t1 where
      a: "parallel_algos (max_workers P) (cpu_count E) (pick E step name_tag l)
             (algorithms P) (models E)
             (\<lambda>a m. train_predict E a features l train_df predict_df m)
             (\<lambda>a. l @ name_tag @ a) t = Inr t1"
      and b: "label_loop P E step name_tag features train_df predict_df ls t1 = Inr t'"
      by (simp split: sum.splits)
    from parallel_algos_index [OF a] Cons.IH [OF b] show ?thesis by simp
  next
    case False
    with Cons.prems obtain t1 where
      a: "sequential_algos (algorithms P) (models E)
             (\<lambda>a m. train_predict E a features l train_df predict_df m)
             (\<lambda>a. l @ name_tag @ a) algo_order t = Inr t1"
      and b: "label_loop P E step name_tag features train_df predict_df ls t1 = Inr t'"
      by (simp split: sum.splits)
    from sequential_algos_index [OF a] Cons.IH [OF b] show ?thesis by simp
  qed
qed

lemma feature_block_index:
  "feature_block P C E df ps step name_tag train_len features t = Inr t' \<Longrightarrow> pindex t' = pindex t"
  unfolding feature_block_def Let_def by (rule label_loop_index)

lemma run_step_index:
  assumes "run_step P C E df ps step = Inr t"
  shows "pindex t = iloc_index (length df) (ps + step * prediction_length P)
                  (ps + step * prediction_length P + prediction_length P)"
proof -
  define t0 where "t0 = \<lparr> pindex = iloc_index (length df) (ps + step * prediction_length P)
                  (ps + step * prediction_length P + prediction_length P), pcols = [] \<rparr>"
  define r1 where "r1 = (if ''kline'' \<in> set (feature_sets P) then
              feature_block P C E df ps step ''_k_'' (kline_train_length P)
                (features_kline C) t0
            else Inr t0)"
  have rs: "run_step P C E df ps step = (case r1 of Inl e \<Rightarrow> Inl e
          | Inr t1 \<Rightarrow>
              (if ''futur'' \<in> set (feature_sets P) then
                 feature_block P C E df ps step ''_f_'' (futur_train_length P)
                   (features_futur C) t1
               else Inr t1))"
    by (simp add: run_step_def Let_def r1_def t0_def)
  from assms rs obtain t1 where r1: "r1 = Inr t1"
    and r2: "(if ''futur'' \<in> set (feature_sets P) then
                 feature_block P C E df ps step ''_f_'' (futur_train_length P)
                   (features_futur C) t1
               else Inr t1) = Inr t"
    by (cases r1) simp_all
  have i1: "pindex t1 = pindex t0"
    using r1 unfolding r1_def by (auto split: if_splits dest: feature_block_index)
  have i2: "pindex t = pindex t1"
    using r2 by (auto split: if_splits dest: feature_block_index)
  from i1 i2 show ?thesis by (simp add: t0_def)
qed

lemma append_rows_index: "pindex (append_rows a b) = pindex a @ pindex b"
  by (simp add: append_rows_def Let_def)

lemma rolling_loop_index:
  "rolling_loop P C E df ps steps acc = Inr t \<Longrightarrow>
     pindex t = pindex acc @
       concat (map (\<lambda>i. iloc_index (length df) (ps + i * prediction_length P)
                 (ps + i * prediction_length P + prediction_length P)) steps)"
proof (induction steps arbitrary: acc)
  case Nil
  then show ?case by simp
next
  case (Cons s steps)
  from Cons.prems obtain t1 where a: "run_step P C E df ps s = Inr t1"
    and b: "rolling_loop P C E df ps steps (append_rows acc t1) = Inr t"
    by (simp split: sum.splits)
  from Cons.IH [OF b] run_step_index [OF a] show ?case
    by (simp add: append_rows_index)
qed

lemma store_predictions: "store C df t = Inr out \<Longrightarrow> predictions out = t"
  by (auto simp: store_def split: if_splits)

lemma main_Inr:
  assumes "main P C E df ps = Inr out"
  obtains steps t where
    "checked_steps (prediction_count P) (prediction_length P) (int (length df)) ps = Inr steps"
    and "rolling_loop P C E df ps (step_range steps) empty_ptable = Inr t"
    and "store C df t = Inr out"
  using assms unfolding main_def by (simp split: sum.splits)

lemma main_index:
  assumes "main P C E df ps = Inr out"
    and "checked_steps (prediction_count P) (prediction_length P) (int (length df)) ps = Inr steps"
  shows "pindex (predictions out) =
       concat (map (\<lambda>i. iloc_index (length df) (ps + i * prediction_length P)
                 (ps + i * prediction_length P + prediction_length P)) (step_range steps))"
proof -
  from assms(1) obtain steps' t where
    c: "checked_steps (prediction_count P) (prediction_length P) (int (length df)) ps = Inr steps'"
    and r: "rolling_loop P C E df ps (step_range steps') empty_ptable = Inr t"
    and s: "store C df t = Inr out"
    by (rule main_Inr)
  from c assms(2) have "steps' = steps" by simp
  with rolling_loop_index [OF r] store_predictions [OF s] show ?thesis
    by (simp add: empty_ptable_def)
qed

lemma example_main:
  "main example_params example_config example_env example_df 4 =
     Inr \<lparr>predictions = \<lparr>pindex = [4, 5, 6, 7, 8, 9],
          pcols = [(''high_k_nn'', [Some 12, Some 13, Some 16, Some 17, Some 18, Some 19])]\<rparr>,
       original = [Some 4, Some 5, Some 6, Some 7, Some 8, Some 9]\<rparr>"
  by code_simp

lemma effective_steps_given: "k \<noteq> 0 \<Longrightarrow> effective_steps (Some k) stride n ps = Inr k"
  by (simp add: effective_steps_def)

lemma effective_steps_rest:
  "count = None \<or> count = Some 0 \<Longrightarrow> stride \<noteq> 0 \<Longrightarrow>
     effective_steps count stride n ps = Inr ((n - ps) div stride)"
  by (auto simp: effective_steps_def)

lemma floor_div_fits: "0 < stride \<Longrightarrow> \<not> (a::int) < a div stride * stride"
proof -
  assume "0 < stride"
  then have "0 \<le> a mod stride" by simp
  moreover have "a div stride * stride + a mod stride = a" by simp
  ultimately show ?thesis by linarith
qed

lemma checked_steps_iff:
  assumes "effective_steps count stride n ps = Inr steps"
  shows "(checked_steps count stride n ps = Inl ValueError) = (n - ps < steps * stride)"
    and "(checked_steps count stride n ps = Inr steps) = (\<not> n - ps < steps * stride)"
  using assms by (simp_all add: checked_steps_def)

lemma main_config_error:
  "checked_steps (prediction_count P) (prediction_length P) (int (length df)) ps = Inl e \<Longrightarrow>
     main P C E df ps = Inl e"
  by (simp add: main_def)

lemma checked_steps_Inr:
  "checked_steps count stride n ps = Inr steps \<Longrightarrow> steps * stride \<le> n - ps"
  by (auto simp: checked_steps_def split: sum.splits if_splits)

lemma main_rows:
  assumes m: "main P C E df ps = Inr out"
    and c: "checked_steps (prediction_count P) (prediction_length P) (int (length df)) ps = Inr steps"
    and ps: "0 \<le> ps" and st: "0 \<le> prediction_length P" and k: "0 \<le> steps"
  shows "pindex (predictions out) = [nat ps ..< nat (ps + steps * prediction_length P)]"
proof -
  have fit: "ps + int (nat steps) * prediction_length P \<le> int (length df)"
    using checked_steps_Inr [OF c] k by simp
  have "pindex (predictions out) =
       concat (map (\<lambda>i. iloc_index (length df) (ps + i * prediction_length P)
                 (ps + i * prediction_length P + prediction_length P)) (map int [0 ..< nat steps]))"
    using main_index [OF m c] by (simp add: step_range_def)
  also have "\<dots> = [nat ps ..< nat (ps + int (nat steps) * prediction_length P)]"
    by (rule concat_windows [OF ps st fit])
  finally show ?thesis using k by simp
qed

text \<open>
  Claim C7. With the step count that is in effect, \<open>main\<close> raises the configuration
  error (the \<open>ValueError\<close> of line 146) exactly when
  \<open>N - prediction_start < steps * stride\<close>, and passes the check exactly otherwise. A
  given non-zero \<open>prediction_count\<close> is the step count; when it is \<open>None\<close> or 0 the step
  count is \<open>(N - prediction_start) // stride\<close>, and then, the stride being a positive
  number of rows, the check passes. The error is raised up front: \<open>main\<close> returns it
  whatever the trainers and the scheduler are. Nothing is truncated: a run that passes
  the check and ends stores exactly \<open>steps * stride\<close> predicted rows.
\<close>

theorem configuration_check:
  "(effective_steps count stride n ps = Inr steps \<longrightarrow>
       (checked_steps count stride n ps = Inl ValueError) = (n - ps < steps * stride)
     \<and> (checked_steps count stride n ps = Inr steps) = (\<not> n - ps < steps * stride))
   \<and> (k \<noteq> 0 \<longrightarrow> effective_steps (Some k) stride n ps = Inr k)
   \<and> ((count = None \<or> count = Some 0) \<and> 0 < stride \<longrightarrow>
        effective_steps count stride n ps = Inr ((n - ps) div stride)
      \<and> checked_steps count stride n ps = Inr ((n - ps) div stride))
   \<and> (checked_steps (prediction_count P) (prediction_length P) (int (length df)) start = Inl e \<longrightarrow>
        main P C E df start = Inl e)
   \<and> (main P C E df start = Inr out
      \<and> checked_steps (prediction_count P) (prediction_length P) (int (length df)) start = Inr m
      \<and> 0 \<le> start \<and> 0 \<le> prediction_length P \<and> 0 \<le> m \<longrightarrow>
        length (pindex (predictions out)) = nat (m * prediction_length P))"
proof -
  have a: "effective_steps count stride n ps = Inr steps \<longrightarrow>
       (checked_steps count stride n ps = Inl ValueError) = (n - ps < steps * stride)
     \<and> (checked_steps count stride n ps = Inr steps) = (\<not> n - ps < steps * stride)"
    using checked_steps_iff by blast
  have b: "k \<noteq> 0 \<longrightarrow> effective_steps (Some k) stride n ps = Inr k"
    by (simp add: effective_steps_given)
  have c: "(count = None \<or> count = Some 0) \<and> 0 < stride \<longrightarrow>
        effective_steps count stride n ps = Inr ((n - ps) div stride)
      \<and> checked_steps count stride n ps = Inr ((n - ps) div stride)"
  proof
    assume h: "(count = None \<or> count = Some 0) \<and> 0 < stride"
    then have e: "effective_steps count stride n ps = Inr ((n - ps) div stride)"
      by (intro effective_steps_rest) simp_all
    moreover have "checked_steps count stride n ps = Inr ((n - ps) div stride)"
      using checked_steps_iff(2) [OF e] floor_div_fits h by blast
    ultimately show "effective_steps count stride n ps = Inr ((n - ps) div stride)
      \<and> checked_steps count stride n ps = Inr ((n - ps) div stride)" by blast
  qed
  have d: "checked_steps (prediction_count P) (prediction_length P) (int (length df)) start = Inl e \<longrightarrow>
        main P C E df start = Inl e"
    using main_config_error by blast
  have f: "main P C E df start = Inr out
      \<and> checked_steps (prediction_count P) (prediction_length P) (int (length df)) start = Inr m
      \<and> 0 \<le> start \<and> 0 \<le> prediction_length P \<and> 0 \<le> m \<longrightarrow>
        length (pindex (predictions out)) = nat (m * prediction_length P)"
  proof
    assume h: "main P C E df start = Inr out
      \<and> checked_steps (prediction_count P) (prediction_length P) (int (length df)) start = Inr m
      \<and> 0 \<le> start \<and> 0 \<le> prediction_length P \<and> 0 \<le> m"
    then have "pindex (predictions out) = [nat start ..< nat (start + m * prediction_length P)]"
      using main_rows [of P C E df start out m] by blast
    moreover have "0 \<le> m * prediction_length P" using h by simp
    ultimately show "length (pindex (predictions out)) = nat (m * prediction_length P)"
      using h by (simp add: nat_add_distrib)
  qed
  from a b c d f show ?thesis by blast
qed

lemma window_predict [simp]:
  "predict_start (window_at ps stride h len i) = ps + i * stride"
  "predict_end (window_at ps stride h len i) = ps + i * stride + stride"
  "train_end (window_at ps stride h len i) = ps + i * stride - h - 1"
  "train_start (window_at ps stride h len i) = max 0 (ps + i * stride - h - 1 - len)"
  by (simp_all add: window_at_def Let_def max_def)

lemma step_range_mem: "0 \<le> i \<Longrightarrow> i < steps \<Longrightarrow> i \<in> set (step_range steps)"
proof -
  assume "0 \<le> i" "i < steps"
  then have "nat i \<in> set [0 ..< nat steps]" by simp
  then have "int (nat i) \<in> int ` set [0 ..< nat steps]" by (rule imageI)
  with \<open>0 \<le> i\<close> show ?thesis by (simp add: step_range_def del: set_upt)
qed

lemma window_in_table:
  assumes ps: "0 \<le> ps" and st: "0 \<le> stride" and fit: "steps * stride \<le> int n - ps"
    and i: "0 \<le> i" "i < steps"
  shows "iloc_index n (ps + i * stride) (ps + i * stride + stride)
           = [nat (ps + i * stride) ..< nat (ps + i * stride + stride)]"
proof -
  have "(i + 1) * stride \<le> steps * stride"
    using i st by (intro mult_right_mono) simp_all
  then have up: "ps + i * stride + stride \<le> int n" using fit by (simp add: algebra_simps)
  have lo: "0 \<le> ps + i * stride" using ps st i by simp
  show ?thesis using lo st up by (intro iloc_index_in_range) simp_all
qed

text \<open>
  Claim C3. For a valid configuration (a prediction start inside the table, a positive
  stride, a step count that is not negative) that passes the check
  \<open>N - prediction_start \<ge> steps * stride\<close>, the loop runs over exactly \<open>steps\<close> windows;
  window \<open>i\<close> predicts from \<open>prediction_start + i * stride\<close> to that plus \<open>stride\<close>, the next
  window starts where it ends, the table of step \<open>i\<close> is indexed by exactly the rows of
  window \<open>i\<close>, and the windows together are the \<open>steps * stride\<close> rows from
  \<open>prediction_start\<close> on, each once; these are the rows of the stored table.
\<close>

theorem prediction_windows_partition:
  assumes "0 \<le> ps" and "0 < prediction_length P" and "0 \<le> steps"
    and "checked_steps (prediction_count P) (prediction_length P) (int (length df)) ps = Inr steps"
  shows "steps * prediction_length P \<le> int (length df) - ps
    \<and> length (step_range steps) = nat steps
    \<and> (\<forall>i. 0 \<le> i \<and> i < steps \<longrightarrow>
          i \<in> set (step_range steps)
        \<and> predict_start (window_at ps (prediction_length P) (label_horizon C) len i)
            = ps + i * prediction_length P
        \<and> predict_end (window_at ps (prediction_length P) (label_horizon C) len i)
            = predict_start (window_at ps (prediction_length P) (label_horizon C) len i)
              + prediction_length P
        \<and> predict_start (window_at ps (prediction_length P) (label_horizon C) len (i + 1))
            = predict_end (window_at ps (prediction_length P) (label_horizon C) len i)
        \<and> (\<forall>t. run_step P C E df ps i = Inr t \<longrightarrow>
             pindex t =
               [nat (predict_start (window_at ps (prediction_length P) (label_horizon C) len i)) ..<
                nat (predict_end (window_at ps (prediction_length P) (label_horizon C) len i))]))
    \<and> concat (map (\<lambda>i. iloc_index (length df)
                 (predict_start (window_at ps (prediction_length P) (label_horizon C) len i))
                 (predict_end (window_at ps (prediction_length P) (label_horizon C) len i)))
          (step_range steps))
        = [nat ps ..< nat ps + nat (steps * prediction_length P)]
    \<and> (\<forall>out. main P C E df ps = Inr out \<longrightarrow>
          pindex (predictions out) = [nat ps ..< nat ps + nat (steps * prediction_length P)])"
proof -
  let ?s = "prediction_length P"
  note c = assms(4)
  have st: "0 \<le> ?s" using assms(2) by simp
  have fit: "steps * ?s \<le> int (length df) - ps" by (rule checked_steps_Inr [OF c])
  have nn: "0 \<le> steps * ?s" using assms(3) st by simp
  have e: "nat (ps + steps * ?s) = nat ps + nat (steps * ?s)"
    using assms(1) nn by (simp add: nat_add_distrib)
  have len: "length (step_range steps) = nat steps" by (simp add: step_range_def)
  have each: "\<forall>i. 0 \<le> i \<and> i < steps \<longrightarrow>
          i \<in> set (step_range steps)
        \<and> predict_start (window_at ps ?s (label_horizon C) len i) = ps + i * ?s
        \<and> predict_end (window_at ps ?s (label_horizon C) len i)
            = predict_start (window_at ps ?s (label_horizon C) len i) + ?s
        \<and> predict_start (window_at ps ?s (label_horizon C) len (i + 1))
            = predict_end (window_at ps ?s (label_horizon C) len i)
        \<and> (\<forall>t. run_step P C E df ps i = Inr t \<longrightarrow>
             pindex t =
               [nat (predict_start (window_at ps ?s (label_horizon C) len i)) ..<
                nat (predict_end (window_at ps ?s (label_horizon C) len i))])"
  proof (intro allI impI)
    fix i assume i: "0 \<le> i \<and> i < steps"
    have w: "iloc_index (length df) (ps + i * ?s) (ps + i * ?s + ?s)
           = [nat (ps + i * ?s) ..< nat (ps + i * ?s + ?s)]"
      using window_in_table [OF assms(1) st fit] i by blast
    have r: "\<forall>t. run_step P C E df ps i = Inr t \<longrightarrow>
             pindex t = [nat (ps + i * ?s) ..< nat (ps + i * ?s + ?s)]"
      using run_step_index w by metis
    show "i \<in> set (step_range steps)
        \<and> predict_start (window_at ps ?s (label_horizon C) len i) = ps + i * ?s
        \<and> predict_end (window_at ps ?s (label_horizon C) len i)
            = predict_start (window_at ps ?s (label_horizon C) len i) + ?s
        \<and> predict_start (window_at ps ?s (label_horizon C) len (i + 1))
            = predict_end (window_at ps ?s (label_horizon C) len i)
        \<and> (\<forall>t. run_step P C E df ps i = Inr t \<longrightarrow>
             pindex t =
               [nat (predict_start (window_at ps ?s (label_horizon C) len i)) ..<
                nat (predict_end (window_at ps ?s (label_horizon C) len i))])"
      using i r step_range_mem by (simp add: algebra_simps)
  qed
  have fit': "ps + int (nat steps) * ?s \<le> int (length df)" using fit assms(3) by simp
  have un: "concat (map (\<lambda>i. iloc_index (length df)
                 (predict_start (window_at ps ?s (label_horizon C) len i))
                 (predict_end (window_at ps ?s (label_horizon C) len i)))
          (step_range steps)) = [nat ps ..< nat ps + nat (steps * ?s)]"
    using concat_windows [OF assms(1) st fit'] assms(3) e by (simp add: step_range_def)
  have mn: "\<forall>out. main P C E df ps = Inr out \<longrightarrow>
          pindex (predictions out) = [nat ps ..< nat ps + nat (steps * ?s)]"
    using main_rows [OF _ c assms(1) st assms(3)] unfolding e by blast
  from fit len each un mn show ?thesis by blast
qed

lemma train_rows_before:
  "0 \<le> b \<Longrightarrow> j \<in> set (iloc_index n a b) \<Longrightarrow> int j < b"
  by (auto simp: iloc_index_def clamp_index_def min_def split: if_splits)

text \<open>
  Claim C4. For every window \<open>train_end = predict_start - horizon - 1\<close> and
  \<open>train_start = max(0, train_end - train_length)\<close>, so
  \<open>train_end \<le> predict_start - horizon - 1\<close>; when \<open>train_end\<close> is not negative every
  training row lies before \<open>predict_start - horizon - 1\<close>. The feature block trains on the
  rows of that span; for an early window, where \<open>train_end - train_length\<close> is negative,
  the span starts at row 0 and the block goes on with the shorter history: the clamping
  raises nothing.
\<close>

theorem training_span_embargo:
  "(let w = window_at ps (prediction_length P) (label_horizon C) len i in
      train_end w = predict_start w - label_horizon C - 1
    \<and> train_start w = max 0 (train_end w - len)
    \<and> train_end w \<le> predict_start w - label_horizon C - 1
    \<and> (0 \<le> train_end w \<longrightarrow>
         (\<forall>j \<in> set (iloc_index (length df) (train_start w) (train_end w)).
            int j < predict_start w - label_horizon C - 1))
    \<and> feature_block P C E df ps i name_tag len features t =
        label_loop P E i name_tag features
          (filter (\<lambda>r. \<not> has_na E features r) (iloc df (train_start w) (train_end w)))
          (iloc df (predict_start w) (predict_end w)) (labels C) t
    \<and> (train_end w - len < 0 \<longrightarrow>
          train_start w = 0
        \<and> feature_block P C E df ps i name_tag len features t =
            label_loop P E i name_tag features
              (filter (\<lambda>r. \<not> has_na E features r) (iloc df 0 (train_end w)))
              (iloc df (predict_start w) (predict_end w)) (labels C) t))"
proof -
  define w where "w = window_at ps (prediction_length P) (label_horizon C) len i"
  have a: "train_end w = predict_start w - label_horizon C - 1" by (simp add: w_def)
  have b: "train_start w = max 0 (train_end w - len)" by (simp add: w_def)
  have c: "0 \<le> train_end w \<longrightarrow>
         (\<forall>j \<in> set (iloc_index (length df) (train_start w) (train_end w)).
            int j < predict_start w - label_horizon C - 1)"
    using train_rows_before a by metis
  have d: "feature_block P C E df ps i name_tag len features t =
        label_loop P E i name_tag features
          (filter (\<lambda>r. \<not> has_na E features r) (iloc df (train_start w) (train_end w)))
          (iloc df (predict_start w) (predict_end w)) (labels C) t"
    by (simp add: feature_block_def Let_def w_def del: window_predict)
  have e: "train_end w - len < 0 \<longrightarrow> train_start w = 0" using b by simp
  from a b c d e show ?thesis unfolding w_def [symmetric] Let_def by simp
qed

lemma example_checked:
  "checked_steps (prediction_count example_params) (prediction_length example_params)
     (int (length example_df)) 4 = Inr 3"
  by (simp add: checked_steps_def effective_steps_def example_params_def example_df_def)

text \<open>The run of three windows: rows 4 to 9, two per step.\<close>

theorem prediction_windows_partition_witness:
  "(0::int) \<le> 4 \<and> 0 < prediction_length example_params \<and> (0::int) \<le> 3
   \<and> checked_steps (prediction_count example_params) (prediction_length example_params)
        (int (length example_df)) 4 = Inr 3
   \<and> length (step_range 3) = 3
   \<and> predict_start (window_at 4 (prediction_length example_params) (label_horizon example_config) 4 1) = 6
   \<and> predict_end (window_at 4 (prediction_length example_params) (label_horizon example_config) 4 1) = 8
   \<and> predict_start (window_at 4 (prediction_length example_params) (label_horizon example_config) 4 2) = 8
   \<and> concat (map (\<lambda>i. iloc_index (length example_df)
                 (predict_start (window_at 4 (prediction_length example_params) (label_horizon example_config) 4 i))
                 (predict_end (window_at 4 (prediction_length example_params) (label_horizon example_config) 4 i)))
          (step_range 3)) = [4 ..< 10]
   \<and> pindex (predictions \<lparr>predictions = \<lparr>pindex = [4, 5, 6, 7, 8, 9],
          pcols = [(''high_k_nn'', [Some 12, Some 13, Some 16, Some 17, Some 18, Some 19])]\<rparr>,
       original = [Some 4, Some 5, Some 6, Some 7, Some 8, Some (9::nat)]\<rparr>) = [4 ..< 10]"
proof -
  have p: "(0::int) \<le> 4" "0 < prediction_length example_params" "(0::int) \<le> 3"
    by (simp_all add: example_params_def)
  note t = prediction_windows_partition [OF p example_checked, where C = example_config
      and len = 4 and E = example_env]
  have s: "prediction_length example_params = 2" by (simp add: example_params_def)
  from t have a: "length (step_range 3) = 3" by simp
  from t have "\<forall>i. 0 \<le> i \<and> i < 3 \<longrightarrow>
        predict_start (window_at 4 (prediction_length example_params) (label_horizon example_config) 4 i)
            = 4 + i * prediction_length example_params
      \<and> predict_end (window_at 4 (prediction_length example_params) (label_horizon example_config) 4 i)
            = predict_start (window_at 4 (prediction_length example_params) (label_horizon example_config) 4 i)
              + prediction_length example_params
      \<and> predict_start (window_at 4 (prediction_length example_params) (label_horizon example_config) 4 (i + 1))
            = predict_end (window_at 4 (prediction_length example_params) (label_horizon example_config) 4 i)"
    by blast
  from this [rule_format, of 1] have b:
    "predict_start (window_at 4 (prediction_length example_params) (label_horizon example_config) 4 1) = 6
   \<and> predict_end (window_at 4 (prediction_length example_params) (label_horizon example_config) 4 1) = 8
   \<and> predict_start (window_at 4 (prediction_length example_params) (label_horizon example_config) 4 2) = 8"
    by (simp add: s)
  from t have c: "concat (map (\<lambda>i. iloc_index (length example_df)
                 (predict_start (window_at 4 (prediction_length example_params) (label_horizon example_config) 4 i))
                 (predict_end (window_at 4 (prediction_length example_params) (label_horizon example_config) 4 i)))
          (step_range 3)) = [nat 4 ..< nat 4 + nat (3 * prediction_length example_params)]"
    by blast
  have n: "[nat 4 ..< nat 4 + nat (3 * prediction_length example_params)] = [4 ..< 10]"
    by (simp add: s)
  from t have "\<forall>out. main example_params example_config example_env example_df 4 = Inr out \<longrightarrow>
          pindex (predictions out) = [nat 4 ..< nat 4 + nat (3 * prediction_length example_params)]"
    by blast
  with example_main have d: "pindex (predictions \<lparr>predictions = \<lparr>pindex = [4, 5, 6, 7, 8, 9],
          pcols = [(''high_k_nn'', [Some 12, Some 13, Some 16, Some 17, Some 18, Some 19])]\<rparr>,
       original = [Some 4, Some 5, Some 6, Some 7, Some 8, Some (9::nat)]\<rparr>) = [4 ..< 10]"
    unfolding n by blast
  from p example_checked a b c [unfolded n] d show ?thesis by blast
qed

text \<open>The first window of the small run is an early one: it trains on rows 0 and 1
  only, and the step ends with its predictions.\<close>

theorem training_span_embargo_witness:
  "train_end (window_at 4 (prediction_length example_params) (label_horizon example_config) 4 0) = 2
   \<and> train_end (window_at 4 (prediction_length example_params) (label_horizon example_config) 4 0) - 4 < 0
   \<and> train_start (window_at 4 (prediction_length example_params) (label_horizon example_config) 4 0) = 0
   \<and> iloc_index (length example_df) 0 2 = [0, 1]
   \<and> feature_block example_params example_config example_env example_df 4 0 ''_k_'' 4 [''close_1'']
        \<lparr>pindex = [4, 5], pcols = []\<rparr> =
      label_loop example_params example_env 0 ''_k_'' [''close_1'']
        (filter (\<lambda>r. \<not> has_na example_env [''close_1''] r) (iloc example_df 0 2))
        (iloc example_df 4 6) [''high''] \<lparr>pindex = [4, 5], pcols = []\<rparr>
   \<and> run_step example_params example_config example_env example_df 4 0 =
        Inr \<lparr>pindex = [4, 5], pcols = [(''high_k_nn'', [Some 12, Some 13])]\<rparr>"
proof -
  note t = training_span_embargo [of 4 example_params example_config 4 0 example_df example_env
      "''_k_''" "[''close_1'']" "\<lparr>pindex = [4, 5], pcols = []\<rparr>", unfolded Let_def]
  have s: "prediction_length example_params = 2" "label_horizon example_config = 1"
    "labels example_config = [''high'']"
    by (simp_all add: example_params_def example_config_def)
  have e: "train_end (window_at 4 (prediction_length example_params) (label_horizon example_config) 4 0) = 2"
    using t by (simp add: s)
  have neg: "train_end (window_at 4 (prediction_length example_params) (label_horizon example_config) 4 0) - 4 < 0"
    using e by simp
  have z: "train_start (window_at 4 (prediction_length example_params) (label_horizon example_config) 4 0) = 0"
    using t neg by blast
  have i: "iloc_index (length example_df) 0 2 = [0, 1]"
    by (simp add: iloc_index_def clamp_index_def example_df_def upt_rec)
  have f: "feature_block example_params example_config example_env example_df 4 0 ''_k_'' 4 [''close_1'']
        \<lparr>pindex = [4, 5], pcols = []\<rparr> =
      label_loop example_params example_env 0 ''_k_'' [''close_1'']
        (filter (\<lambda>r. \<not> has_na example_env [''close_1''] r) (iloc example_df 0 2))
        (iloc example_df 4 6) [''high''] \<lparr>pindex = [4, 5], pcols = []\<rparr>"
    using t neg e by (simp add: s)
  have r: "run_step example_params example_config example_env example_df 4 0 =
        Inr \<lparr>pindex = [4, 5], pcols = [(''high_k_nn'', [Some 12, Some 13])]\<rparr>"
    by code_simp
  from e neg z i f r show ?thesis by blast
qed

text \<open>Ten rows, prediction start 4 and stride 2: without a step count three steps are
  taken; four steps are refused.\<close>

theorem configuration_check_witness:
  "effective_steps None 2 10 4 = Inr 3
   \<and> checked_steps None 2 10 4 = Inr 3
   \<and> effective_steps (Some 4) 2 10 4 = Inr 4
   \<and> (10::int) - 4 < 4 * 2
   \<and> checked_steps (Some 4) 2 10 4 = Inl ValueError
   \<and> main (example_params\<lparr>prediction_count := Some 4\<rparr>) example_config example_env example_df 4
        = Inl ValueError
   \<and> length (pindex (predictions \<lparr>predictions = \<lparr>pindex = [4, 5, 6, 7, 8, 9],
          pcols = [(''high_k_nn'', [Some 12, Some 13, Some 16, Some 17, Some 18, Some 19])]\<rparr>,
       original = [Some 4, Some 5, Some 6, Some 7, Some 8, Some (9::nat)]\<rparr>)) = 6"
proof -
  define out :: "nat out_table" where "out = \<lparr>predictions = \<lparr>pindex = [4, 5, 6, 7, 8, 9],
          pcols = [(''high_k_nn'', [Some 12, Some 13, Some 16, Some 17, Some 18, Some 19])]\<rparr>,
       original = [Some 4, Some 5, Some 6, Some 7, Some 8, Some (9::nat)]\<rparr>"
  define P4 where "P4 = example_params\<lparr>prediction_count := Some 4\<rparr>"
  note t1 = configuration_check [of None 2 10 4 3 4 example_params example_df 4 ValueError
      example_config example_env out 3]
  note t2 = configuration_check [of "Some 4" 2 10 4 4 4 P4 example_df 4 ValueError
      example_config example_env out 3]
  have a: "effective_steps None 2 10 4 = Inr 3 \<and> checked_steps None 2 10 4 = Inr 3"
    using t1 by simp
  have b: "effective_steps (Some 4) 2 10 4 = Inr 4"
    using t2 by simp
  have c: "(10::int) - 4 < 4 * 2" by simp
  have d: "checked_steps (Some 4) 2 10 4 = Inl ValueError"
    using t2 b c by blast
  have d': "checked_steps (prediction_count P4) (prediction_length P4) (int (length example_df)) 4
        = Inl ValueError"
    using d by (simp add: P4_def example_params_def example_df_def)
  have e: "main P4 example_config example_env example_df 4 = Inl ValueError"
    using t2 d' by blast
  have m: "main example_params example_config example_env example_df 4 = Inr out"
    unfolding out_def by (rule example_main)
  have "length (pindex (predictions out)) = nat (3 * prediction_length example_params)"
    using t1 m example_checked by (simp add: example_params_def)
  then have f: "length (pindex (predictions out)) = 6" by (simp add: example_params_def)
  from a b c d e f show ?thesis unfolding out_def P4_def by blast
qed

section \<open>Properties of the dispatcher\<close>

lemma run_pool_fold:
  "\<forall>i. m i = None \<or> m i = Some ((tasks ! i) ()) \<Longrightarrow>
   fold (\<lambda>i finished. if i < length tasks then finished(i \<mapsto> (tasks ! i) ()) else finished) order m j = None
   \<or> fold (\<lambda>i finished. if i < length tasks then finished(i \<mapsto> (tasks ! i) ()) else finished) order m j
       = Some ((tasks ! j) ())"
proof (induction order arbitrary: m)
  case Nil
  then show ?case by simp
next
  case (Cons k order)
  have "\<forall>i. (if k < length tasks then m(k \<mapsto> (tasks ! k) ()) else m) i = None
      \<or> (if k < length tasks then m(k \<mapsto> (tasks ! k) ()) else m) i = Some ((tasks ! i) ())"
    using Cons.prems by auto
  from Cons.IH [OF this] show ?case by simp
qed

lemma run_pool_result:
  "run_pool order tasks j = None \<or> run_pool order tasks j = Some ((tasks ! j) ())"
  unfolding run_pool_def by (rule run_pool_fold) simp

lemma future_result_run_pool:
  "future_result (run_pool order tasks) tasks j = (tasks ! j) ()"
  using run_pool_result [of order tasks j] by (auto simp: future_result_def)

lemma collect_results_any_order:
  "collect_results (run_pool order tasks) tasks ers t = collect_results Map.empty tasks ers t"
proof (induction ers arbitrary: t)
  case Nil
  show ?case by simp
next
  case (Cons p ers)
  obtain c f where p: "p = (c, f)" by (cases p)
  have "future_result (run_pool order tasks) tasks f = future_result Map.empty tasks f"
    by (simp add: future_result_run_pool) (simp add: future_result_def)
  then show ?case unfolding p by (simp add: Cons.IH split: sum.splits)
qed

lemma parallel_algos_any_pool:
  assumes "workers \<noteq> Some 0" and "workers' \<noteq> Some 0"
  shows "parallel_algos workers cpus sched algos ms run name_of t
       = parallel_algos workers' cpus' sched' algos ms run name_of t"
  using assms
  by (simp add: parallel_algos_def Let_def collect_results_any_order split: sum.splits prod.splits)

lemma completion_order_perm:
  "set (completion_order workers sched pending) = set pending
   \<and> length (completion_order workers sched pending) = length pending"
proof (induction "length pending" arbitrary: pending)
  case 0
  then show ?case by (simp add: completion_order.simps)
next
  case (Suc n)
  then have ne: "pending \<noteq> []" by auto
  define running where "running = take (max 1 workers) pending"
  define i where "i = (if sched running \<in> set running then sched running else hd running)"
  from ne have "running \<noteq> []" unfolding running_def by (cases pending) simp_all
  then have "i \<in> set running" unfolding i_def by simp
  then have mem: "i \<in> set pending" unfolding running_def by (auto dest: in_set_takeD)
  then have len: "length (remove1 i pending) = n" using Suc.hyps(2) by (simp add: length_remove1)
  then have ih: "set (completion_order workers sched (remove1 i pending)) = set (remove1 i pending)
     \<and> length (completion_order workers sched (remove1 i pending)) = length (remove1 i pending)"
    using Suc.hyps(1) by simp
  have un: "completion_order workers sched pending = i # completion_order workers sched (remove1 i pending)"
    using ne by (subst completion_order.simps) (simp add: Let_def running_def i_def)
  have sub: "set (remove1 i pending) \<subseteq> set pending" by (rule set_remove1_subset)
  have other: "\<And>x. x \<in> set pending \<Longrightarrow> x \<noteq> i \<Longrightarrow> x \<in> set (remove1 i pending)"
    by (simp add: in_set_remove1)
  have "insert i (set (remove1 i pending)) = set pending"
    using mem sub other by blast
  with ih un len Suc.hyps(2) show ?case by simp
qed

lemma update_fresh: "k \<notin> fst ` set al \<Longrightarrow> AList.update k v al = al @ [(k, v)]"
  by (induction al) auto

lemma submit_collect_sequential:
  assumes "distinct as" and "inj_on name_of (set as)"
    and "\<forall>a \<in> set as. name_of a \<notin> fst ` set ers0"
    and "submit_algos algos ms run name_of as (ers0, tasks0) = Inr (ers, tasks)"
  shows "\<exists>new more. ers = ers0 @ new \<and> tasks = tasks0 @ more \<and>
           (\<forall>t. collect_results Map.empty tasks new t = sequential_algos algos ms run name_of as t)"
  using assms
proof (induction as arbitrary: ers0 tasks0)
  case Nil
  then show ?case by simp
next
  case (Cons a rest)
  have d: "distinct rest" and inj: "inj_on name_of (set rest)" and anot: "a \<notin> set rest"
    using Cons.prems(1,2) by (simp_all add: inj_on_def)
  show ?case
  proof (cases "a \<in> set algos")
    case False
    with Cons.prems(4) have s: "submit_algos algos ms run name_of rest (ers0, tasks0) = Inr (ers, tasks)"
      by simp
    have fr: "\<forall>b \<in> set rest. name_of b \<notin> fst ` set ers0" using Cons.prems(3) by simp
    from Cons.IH [OF d inj fr s] False show ?thesis by simp
  next
    case True
    with Cons.prems(4) obtain m where gm: "get_model ms a = Inr m"
      and s: "submit_algos algos ms run name_of rest
             (AList.update (name_of a) (length tasks0) ers0, tasks0 @ [\<lambda>_. run a m]) = Inr (ers, tasks)"
      by (auto split: sum.splits)
    have up: "AList.update (name_of a) (length tasks0) ers0 = ers0 @ [(name_of a, length tasks0)]"
      using Cons.prems(3) by (intro update_fresh) simp
    have ne: "\<forall>b \<in> set rest. name_of b \<noteq> name_of a"
      using Cons.prems(2) anot by (auto simp: inj_on_def)
    have fr: "\<forall>b \<in> set rest. name_of b \<notin> fst ` set (ers0 @ [(name_of a, length tasks0)])"
      using Cons.prems(3) ne by auto
    from Cons.IH [OF d inj fr s [unfolded up]] obtain new more where
      e: "ers = (ers0 @ [(name_of a, length tasks0)]) @ new"
      and tk: "tasks = (tasks0 @ [\<lambda>_. run a m]) @ more"
      and c: "\<forall>t. collect_results Map.empty tasks new t = sequential_algos algos ms run name_of rest t"
      by blast
    have fut: "future_result Map.empty tasks (length tasks0) = run a m"
      by (simp add: future_result_def tk nth_append)
    have "\<forall>t. collect_results Map.empty tasks ((name_of a, length tasks0) # new) t
            = sequential_algos algos ms run name_of (a # rest) t"
      using True gm fut c by (simp split: sum.splits)
    with e tk show ?thesis by simp
  qed
qed

lemma parallel_as_sequential:
  assumes "inj_on name_of (set algo_order)" and "workers \<noteq> Some 0"
  shows "parallel_algos workers cpus sched algos ms run name_of t =
     (case submit_algos algos ms run name_of algo_order ([], []) of
        Inl e \<Rightarrow> Inl e
      | Inr submitted \<Rightarrow> sequential_algos algos ms run name_of algo_order t)"
proof (cases "submit_algos algos ms run name_of algo_order ([], [])")
  case (Inl e)
  then show ?thesis using assms(2) by (simp add: parallel_algos_def)
next
  case (Inr p)
  obtain ers tasks where p: "p = (ers, tasks)" by (cases p)
  have d: "distinct algo_order" by (simp add: algo_order_def)
  from submit_collect_sequential [OF d assms(1) _ Inr [unfolded p]]
  have c: "\<forall>t. collect_results Map.empty tasks ers t = sequential_algos algos ms run name_of algo_order t"
    by simp
  show ?thesis using assms(2) Inr p c
    by (simp add: parallel_algos_def Let_def collect_results_any_order)
qed

lemma parallel_success_sequential:
  assumes "inj_on name_of (set algo_order)"
    and "parallel_algos workers cpus sched algos ms run name_of t = Inr t'"
  shows "sequential_algos algos ms run name_of algo_order t = Inr t'"
proof -
  from assms(2) have w: "workers \<noteq> Some 0" by (auto simp: parallel_algos_def)
  from assms(2) show ?thesis
    unfolding parallel_as_sequential [OF assms(1) w] by (simp split: sum.splits)
qed

lemma sequential_algos_tasks:
  "sequential_algos algos ms run name_of as t = Inr t' \<Longrightarrow> a \<in> set as \<Longrightarrow> a \<in> set algos \<Longrightarrow>
     \<exists>m y. get_model ms a = Inr m \<and> run a m = Inr y"
proof (induction as arbitrary: t)
  case Nil
  then show ?case by simp
next
  case (Cons b rest)
  show ?case
  proof (cases "b \<in> set algos")
    case False
    with Cons show ?thesis by auto
  next
    case True
    with Cons.prems(1) obtain m y t1 where g: "get_model ms b = Inr m" and r: "run b m = Inr y"
      and s: "sequential_algos algos ms run name_of rest t1 = Inr t'"
      by (auto split: sum.splits)
    show ?thesis
    proof (cases "a = b")
      case True
      with g r show ?thesis by blast
    next
      case False
      with Cons.prems(2) have "a \<in> set rest" by simp
      from Cons.IH [OF s this Cons.prems(3)] show ?thesis .
    qed
  qed
qed

lemma name_inj: "inj_on (\<lambda>a. label @ name_tag @ a) A"
  by (simp add: inj_on_def)

lemma label_loop_any_pool:
  assumes "max_workers P \<noteq> Some 0" and "w' \<noteq> Some 0"
  shows "label_loop (P\<lparr>max_workers := w'\<rparr>) (E\<lparr>cpu_count := c', pick := p'\<rparr>) step name_tag features
           train_df predict_df ls t
       = label_loop P E step name_tag features train_df predict_df ls t"
proof (induction ls arbitrary: t)
  case Nil
  show ?case by simp
next
  case (Cons l ls)
  have par: "parallel_algos w' c' (p' step name_tag l) (algorithms P) (models E)
             (\<lambda>a m. train_predict E a features l train_df predict_df m)
             (\<lambda>a. l @ name_tag @ a) t
      = parallel_algos (max_workers P) (cpu_count E) (pick E step name_tag l) (algorithms P) (models E)
             (\<lambda>a m. train_predict E a features l train_df predict_df m)
             (\<lambda>a. l @ name_tag @ a) t"
    by (rule parallel_algos_any_pool [OF assms(2,1)])
  show ?case by (simp add: par Cons.IH split: sum.splits)
qed

lemma feature_block_any_pool:
  assumes "max_workers P \<noteq> Some 0" and "w' \<noteq> Some 0"
  shows "feature_block (P\<lparr>max_workers := w'\<rparr>) C (E\<lparr>cpu_count := c', pick := p'\<rparr>) df ps step
           name_tag len features t
       = feature_block P C E df ps step name_tag len features t"
  by (simp add: feature_block_def Let_def label_loop_any_pool [OF assms])

lemma run_step_any_pool:
  assumes "max_workers P \<noteq> Some 0" and "w' \<noteq> Some 0"
  shows "run_step (P\<lparr>max_workers := w'\<rparr>) C (E\<lparr>cpu_count := c', pick := p'\<rparr>) df ps step
       = run_step P C E df ps step"
  by (simp add: run_step_def Let_def feature_block_any_pool [OF assms] cong: sum.case_cong)

lemma rolling_loop_any_pool:
  assumes "max_workers P \<noteq> Some 0" and "w' \<noteq> Some 0"
  shows "rolling_loop (P\<lparr>max_workers := w'\<rparr>) C (E\<lparr>cpu_count := c', pick := p'\<rparr>) df ps steps acc
       = rolling_loop P C E df ps steps acc"
  by (induction steps arbitrary: acc) (simp_all add: run_step_any_pool [OF assms] split: sum.splits)

lemma main_any_pool:
  assumes "max_workers P \<noteq> Some 0" and "w' \<noteq> Some 0"
  shows "main (P\<lparr>max_workers := w'\<rparr>) C (E\<lparr>cpu_count := c', pick := p'\<rparr>) df ps = main P C E df ps"
  by (simp add: main_def rolling_loop_any_pool [OF assms] cong: sum.case_cong)

lemma label_loop_tasks:
  assumes "label_loop P E step name_tag features train_df predict_df ls t = Inr t'"
    and "l \<in> set ls" and "a \<in> set algo_order" and "a \<in> set (algorithms P)"
  shows "\<exists>m y. get_model (models E) a = Inr m
           \<and> train_predict E a features l train_df predict_df m = Inr y"
  using assms(1,2)
proof (induction ls arbitrary: t)
  case Nil
  then show ?case by simp
next
  case (Cons k ls)
  from Cons.prems(1) obtain t1 where
    one: "(if use_multiprocessing P then
           parallel_algos (max_workers P) (cpu_count E) (pick E step name_tag k)
             (algorithms P) (models E)
             (\<lambda>a m. train_predict E a features k train_df predict_df m)
             (\<lambda>a. k @ name_tag @ a) t
         else
           sequential_algos (algorithms P) (models E)
             (\<lambda>a m. train_predict E a features k train_df predict_df m)
             (\<lambda>a. k @ name_tag @ a) algo_order t) = Inr t1"
    and rest: "label_loop P E step name_tag features train_df predict_df ls t1 = Inr t'"
    by (simp split: sum.splits)
  show ?case
  proof (cases "l = k")
    case True
    have "sequential_algos (algorithms P) (models E)
             (\<lambda>a m. train_predict E a features k train_df predict_df m)
             (\<lambda>a. k @ name_tag @ a) algo_order t = Inr t1"
      using one parallel_success_sequential [OF name_inj] by (simp split: if_splits)
    from sequential_algos_tasks [OF this assms(3,4)] True show ?thesis by simp
  next
    case False
    with Cons.prems(2) have "l \<in> set ls" by simp
    from Cons.IH [OF rest this] show ?thesis .
  qed
qed

lemma rolling_loop_steps:
  "rolling_loop P C E df ps steps acc = Inr t \<Longrightarrow> s \<in> set steps \<Longrightarrow>
     \<exists>t1. run_step P C E df ps s = Inr t1"
proof (induction steps arbitrary: acc)
  case Nil
  then show ?case by simp
next
  case (Cons k steps)
  from Cons.prems(1) obtain t1 where a: "run_step P C E df ps k = Inr t1"
    and b: "rolling_loop P C E df ps steps (append_rows acc t1) = Inr t"
    by (simp split: sum.splits)
  show ?case
  proof (cases "s = k")
    case True
    with a show ?thesis by blast
  next
    case False
    with Cons.prems(2) have "s \<in> set steps" by simp
    from Cons.IH [OF b this] show ?thesis .
  qed
qed

lemma run_step_blocks:
  assumes "run_step P C E df ps step = Inr t"
  shows "''kline'' \<in> set (feature_sets P) \<Longrightarrow>
           \<exists>t0 t1. feature_block P C E df ps step ''_k_'' (kline_train_length P) (features_kline C) t0 = Inr t1"
    and "''futur'' \<in> set (feature_sets P) \<Longrightarrow>
           \<exists>t0 t1. feature_block P C E df ps step ''_f_'' (futur_train_length P) (features_futur C) t0 = Inr t1"
proof -
  define t0 where "t0 = \<lparr> pindex = iloc_index (length df) (ps + step * prediction_length P)
                  (ps + step * prediction_length P + prediction_length P), pcols = [] \<rparr>"
  define r1 where "r1 = (if ''kline'' \<in> set (feature_sets P) then
              feature_block P C E df ps step ''_k_'' (kline_train_length P)
                (features_kline C) t0
            else Inr t0)"
  have rs: "run_step P C E df ps step = (case r1 of Inl e \<Rightarrow> Inl e
          | Inr t1 \<Rightarrow>
              (if ''futur'' \<in> set (feature_sets P) then
                 feature_block P C E df ps step ''_f_'' (futur_train_length P)
                   (features_futur C) t1
               else Inr t1))"
    by (simp add: run_step_def Let_def r1_def t0_def)
  from assms rs obtain t1 where r1: "r1 = Inr t1"
    and r2: "(if ''futur'' \<in> set (feature_sets P) then
                 feature_block P C E df ps step ''_f_'' (futur_train_length P)
                   (features_futur C) t1
               else Inr t1) = Inr t"
    by (cases r1) simp_all
  show "''kline'' \<in> set (feature_sets P) \<Longrightarrow>
           \<exists>t0 t1. feature_block P C E df ps step ''_k_'' (kline_train_length P) (features_kline C) t0 = Inr t1"
    using r1 unfolding r1_def by auto
  show "''futur'' \<in> set (feature_sets P) \<Longrightarrow>
           \<exists>t0 t1. feature_block P C E df ps step ''_f_'' (futur_train_length P) (features_futur C) t0 = Inr t1"
    using r2 by auto
qed

lemma feature_block_tasks:
  assumes "feature_block P C E df ps step name_tag len features t0 = Inr t1"
    and "l \<in> set (labels C)" and "a \<in> set algo_order" and "a \<in> set (algorithms P)"
    and "w = window_at ps (prediction_length P) (label_horizon C) len step"
  shows "\<exists>m y. get_model (models E) a = Inr m
           \<and> train_predict E a features l
                (filter (\<lambda>r. \<not> has_na E features r) (iloc df (train_start w) (train_end w)))
                (iloc df (predict_start w) (predict_end w)) m = Inr y"
  using assms(1) unfolding feature_block_def Let_def assms(5)
  by (rule label_loop_tasks [OF _ assms(2,3,4)])

lemma not_Inr_is_Inl: "(\<forall>t. x \<noteq> Inr t) \<Longrightarrow> \<exists>e. x = Inl e"
  by (cases x) simp_all

text \<open>
  Claim C5. Take a task of the run: a step of the loop, an enabled feature set, a
  label, an algorithm of \<open>P.algorithms\<close> among \<open>gb\<close>, \<open>nn\<close>, \<open>lc\<close> whose model
  exists. If the adapter raises on the data of that task, the step of that window ends
  with an exception, so does the loop, and so does \<open>main\<close>: no table reaches \<open>store\<close>,
  nothing is written, whatever the windows before it produced and whether the tasks
  run in the pool or one after the other.
\<close>

theorem task_failure_aborts:
  assumes "checked_steps (prediction_count P) (prediction_length P) (int (length df)) ps = Inr steps"
    and "step \<in> set (step_range steps)"
    and "(name_tag = ''_k_'' \<and> ''kline'' \<in> set (feature_sets P) \<and> len = kline_train_length P
            \<and> features = features_kline C)
       \<or> (name_tag = ''_f_'' \<and> ''futur'' \<in> set (feature_sets P) \<and> len = futur_train_length P
            \<and> features = features_futur C)"
    and "label \<in> set (labels C)" and "a \<in> set algo_order" and "a \<in> set (algorithms P)"
    and "get_model (models E) a = Inr m"
    and "w = window_at ps (prediction_length P) (label_horizon C) len step"
    and "train_predict E a features label
           (filter (\<lambda>r. \<not> has_na E features r) (iloc df (train_start w) (train_end w)))
           (iloc df (predict_start w) (predict_end w)) m = Inl e"
  shows "(\<exists>e'. run_step P C E df ps step = Inl e')
       \<and> (\<exists>e'. rolling_loop P C E df ps (step_range steps) empty_ptable = Inl e')
       \<and> (\<exists>e'. main P C E df ps = Inl e')"
proof -
  have block: "\<And>t0 t1. feature_block P C E df ps step name_tag len features t0 \<noteq> Inr t1"
  proof
    fix t0 t1 assume "feature_block P C E df ps step name_tag len features t0 = Inr t1"
    from feature_block_tasks [OF this assms(4,5,6,8)] assms(7,9) show False by auto
  qed
  have step: "\<forall>t. run_step P C E df ps step \<noteq> Inr t"
  proof (intro allI notI)
    fix t assume r: "run_step P C E df ps step = Inr t"
    from assms(3) run_step_blocks [OF r] block show False by blast
  qed
  have loop: "\<forall>t. rolling_loop P C E df ps (step_range steps) empty_ptable \<noteq> Inr t"
    using rolling_loop_steps [OF _ assms(2)] step by blast
  have run: "\<forall>out. main P C E df ps \<noteq> Inr out"
  proof (intro allI notI)
    fix out assume "main P C E df ps = Inr out"
    then obtain t where "rolling_loop P C E df ps (step_range steps) empty_ptable = Inr t"
      using assms(1) by (auto elim!: main_Inr)
    with loop show False by blast
  qed
  from step loop run show ?thesis by (simp add: not_Inr_is_Inl)
qed

lemma assign_column_fresh:
  "assign_column t n y = Inr t' \<Longrightarrow> n \<notin> fst ` set (pcols t) \<Longrightarrow> pcols t' = pcols t @ [(n, y)]"
  by (auto simp: assign_column_def update_fresh split: if_splits)

lemma sequential_algos_cols:
  assumes "sequential_algos algos ms run name_of as t = Inr t'"
    and "distinct as" and "inj_on name_of (set as)"
    and "\<forall>a \<in> set as. name_of a \<notin> fst ` set (pcols t)"
  shows "pcols t' = pcols t @
     map (\<lambda>a. (name_of a,
                case get_model ms a of Inl e \<Rightarrow> []
                | Inr m \<Rightarrow> (case run a m of Inl e \<Rightarrow> [] | Inr y_hat \<Rightarrow> y_hat)))
       (filter (\<lambda>a. a \<in> set algos) as)"
  using assms
proof (induction as arbitrary: t)
  case Nil
  then show ?case by simp
next
  case (Cons a rest)
  have d: "distinct rest" and inj: "inj_on name_of (set rest)" and anot: "a \<notin> set rest"
    using Cons.prems(2,3) by (simp_all add: inj_on_def)
  show ?case
  proof (cases "a \<in> set algos")
    case False
    with Cons.prems(1) have s: "sequential_algos algos ms run name_of rest t = Inr t'" by simp
    have fr: "\<forall>b \<in> set rest. name_of b \<notin> fst ` set (pcols t)" using Cons.prems(4) by simp
    from Cons.IH [OF s d inj fr] False show ?thesis by simp
  next
    case True
    with Cons.prems(1) obtain m y t1 where g: "get_model ms a = Inr m" and r: "run a m = Inr y"
      and as: "assign_column t (name_of a) y = Inr t1"
      and s: "sequential_algos algos ms run name_of rest t1 = Inr t'"
      by (auto split: sum.splits)
    have c1: "pcols t1 = pcols t @ [(name_of a, y)]"
      using as Cons.prems(4) by (intro assign_column_fresh) simp_all
    have ne: "\<forall>b \<in> set rest. name_of b \<noteq> name_of a"
      using Cons.prems(3) anot by (auto simp: inj_on_def)
    have fr: "\<forall>b \<in> set rest. name_of b \<notin> fst ` set (pcols t1)"
      using Cons.prems(4) ne unfolding c1 by auto
    from Cons.IH [OF s d inj fr] True g r c1 show ?thesis by simp
  qed
qed

lemma algo_length: "a \<in> set algo_order \<Longrightarrow> length a = 2"
  by (auto simp: algo_order_def)

lemma column_name_eq:
  assumes "a \<in> set algo_order" and "b \<in> set algo_order" and "length tag = length tag'"
  shows "(l @ tag @ a = k @ tag' @ b) = (l = k \<and> tag = tag' \<and> a = b)"
proof -
  have "length (tag @ a) = length (tag' @ b)" using assms by (simp add: algo_length)
  then have "(l @ (tag @ a) = k @ (tag' @ b)) = (l = k \<and> tag @ a = tag' @ b)" by simp
  also have "\<dots> = (l = k \<and> tag = tag' \<and> a = b)" using assms(3) by simp
  finally show ?thesis .
qed

lemma label_step_cols:
  assumes "(if use_multiprocessing P then
           parallel_algos (max_workers P) (cpu_count E) (pick E step name_tag l)
             (algorithms P) (models E)
             (\<lambda>a m. train_predict E a features l train_df predict_df m)
             (\<lambda>a. l @ name_tag @ a) t
         else
           sequential_algos (algorithms P) (models E)
             (\<lambda>a m. train_predict E a features l train_df predict_df m)
             (\<lambda>a. l @ name_tag @ a) algo_order t) = Inr t1"
    and "\<forall>a \<in> set algo_order. l @ name_tag @ a \<notin> fst ` set (pcols t)"
  shows "pcols t1 = pcols t @ map (task_column E features train_df predict_df name_tag l)
                               (filter (\<lambda>a. a \<in> set (algorithms P)) algo_order)"
proof -
  have s: "sequential_algos (algorithms P) (models E)
             (\<lambda>a m. train_predict E a features l train_df predict_df m)
             (\<lambda>a. l @ name_tag @ a) algo_order t = Inr t1"
    using assms(1) parallel_success_sequential [OF name_inj] by (simp split: if_splits)
  have d: "distinct algo_order" by (simp add: algo_order_def)
  from sequential_algos_cols [OF s d name_inj assms(2)] show ?thesis
    by (simp add: task_column_def [abs_def])
qed

lemma task_column_name [simp]:
  "fst (task_column E features train_df predict_df name_tag l a) = l @ name_tag @ a"
  by (simp add: task_column_def)

lemma label_loop_cols:
  assumes "label_loop P E step name_tag features train_df predict_df ls t = Inr t'"
    and "distinct ls"
    and "\<forall>l \<in> set ls. \<forall>a \<in> set algo_order. l @ name_tag @ a \<notin> fst ` set (pcols t)"
  shows "pcols t' = pcols t @
     concat (map (\<lambda>l. map (task_column E features train_df predict_df name_tag l)
                        (filter (\<lambda>a. a \<in> set (algorithms P)) algo_order)) ls)"
  using assms
proof (induction ls arbitrary: t)
  case Nil
  then show ?case by simp
next
  case (Cons k ls)
  from Cons.prems(1) obtain t1 where
    one: "(if use_multiprocessing P then
           parallel_algos (max_workers P) (cpu_count E) (pick E step name_tag k)
             (algorithms P) (models E)
             (\<lambda>a m. train_predict E a features k train_df predict_df m)
             (\<lambda>a. k @ name_tag @ a) t
         else
           sequential_algos (algorithms P) (models E)
             (\<lambda>a m. train_predict E a features k train_df predict_df m)
             (\<lambda>a. k @ name_tag @ a) algo_order t) = Inr t1"
    and rest: "label_loop P E step name_tag features train_df predict_df ls t1 = Inr t'"
    by (simp split: sum.splits)
  have frk: "\<forall>a \<in> set algo_order. k @ name_tag @ a \<notin> fst ` set (pcols t)"
    using Cons.prems(3) by simp
  have c1: "pcols t1 = pcols t @ map (task_column E features train_df predict_df name_tag k)
                               (filter (\<lambda>a. a \<in> set (algorithms P)) algo_order)"
    by (rule label_step_cols [OF one frk])
  have d: "distinct ls" and knot: "k \<notin> set ls" using Cons.prems(2) by simp_all
  have fr: "\<forall>l \<in> set ls. \<forall>a \<in> set algo_order. l @ name_tag @ a \<notin> fst ` set (pcols t1)"
  proof (intro ballI notI)
    fix l a assume l: "l \<in> set ls" and a: "a \<in> set algo_order"
      and mem: "l @ name_tag @ a \<in> fst ` set (pcols t1)"
    from Cons.prems(3) l a have "l @ name_tag @ a \<notin> fst ` set (pcols t)" by simp
    with mem c1 obtain b where "b \<in> set algo_order" and "l @ name_tag @ a = k @ name_tag @ b"
      by (auto simp: image_iff)
    with a have "l = k" by (simp add: column_name_eq)
    with l knot show False by simp
  qed
  from Cons.IH [OF rest d fr] c1 show ?case by simp
qed

lemma feature_block_cols:
  assumes "feature_block P C E df ps step name_tag len features t = Inr t'"
    and "distinct (labels C)"
    and "\<forall>l \<in> set (labels C). \<forall>a \<in> set algo_order. l @ name_tag @ a \<notin> fst ` set (pcols t)"
  shows "pcols t' = pcols t @ block_columns P C E df ps step name_tag len features"
  using label_loop_cols [OF assms(1) [unfolded feature_block_def Let_def] assms(2,3)]
  by (simp add: block_columns_def Let_def)

lemma block_columns_names:
  "n \<in> fst ` set (block_columns P C E df ps step name_tag len features) \<Longrightarrow>
     \<exists>l \<in> set (labels C). \<exists>a \<in> set algo_order. n = l @ name_tag @ a"
  by (auto simp: block_columns_def Let_def) blast

lemma run_step_cols:
  assumes "run_step P C E df ps step = Inr t" and "distinct (labels C)"
  shows "pcols t = window_columns P C E df ps step"
proof -
  define t0 where "t0 = \<lparr> pindex = iloc_index (length df) (ps + step * prediction_length P)
                  (ps + step * prediction_length P + prediction_length P), pcols = [] \<rparr>"
  define r1 where "r1 = (if ''kline'' \<in> set (feature_sets P) then
              feature_block P C E df ps step ''_k_'' (kline_train_length P)
                (features_kline C) t0
            else Inr t0)"
  have rs: "run_step P C E df ps step = (case r1 of Inl e \<Rightarrow> Inl e
          | Inr t1 \<Rightarrow>
              (if ''futur'' \<in> set (feature_sets P) then
                 feature_block P C E df ps step ''_f_'' (futur_train_length P)
                   (features_futur C) t1
               else Inr t1))"
    by (simp add: run_step_def Let_def r1_def t0_def)
  from assms(1) rs obtain t1 where r1: "r1 = Inr t1"
    and r2: "(if ''futur'' \<in> set (feature_sets P) then
                 feature_block P C E df ps step ''_f_'' (futur_train_length P)
                   (features_futur C) t1
               else Inr t1) = Inr t"
    by (cases r1) simp_all
  have c1: "pcols t1 = (if ''kline'' \<in> set (feature_sets P)
      then block_columns P C E df ps step ''_k_'' (kline_train_length P) (features_kline C)
      else [])"
  proof (cases "''kline'' \<in> set (feature_sets P)")
    case True
    with r1 have "feature_block P C E df ps step ''_k_'' (kline_train_length P)
                (features_kline C) t0 = Inr t1" by (simp add: r1_def)
    from feature_block_cols [OF this assms(2)] True show ?thesis by (simp add: t0_def)
  next
    case False
    with r1 show ?thesis by (auto simp: r1_def t0_def)
  qed
  have c2: "pcols t = pcols t1 @ (if ''futur'' \<in> set (feature_sets P)
      then block_columns P C E df ps step ''_f_'' (futur_train_length P) (features_futur C)
      else [])"
  proof (cases "''futur'' \<in> set (feature_sets P)")
    case True
    with r2 have f: "feature_block P C E df ps step ''_f_'' (futur_train_length P)
                   (features_futur C) t1 = Inr t" by simp
    have fr: "\<forall>l \<in> set (labels C). \<forall>a \<in> set algo_order. l @ ''_f_'' @ a \<notin> fst ` set (pcols t1)"
    proof (intro ballI notI)
      fix l a assume a: "a \<in> set algo_order" and mem: "l @ ''_f_'' @ a \<in> fst ` set (pcols t1)"
      from mem c1 have "l @ ''_f_'' @ a \<in> fst ` set (block_columns P C E df ps step ''_k_''
          (kline_train_length P) (features_kline C))"
        by (simp split: if_splits)
      from block_columns_names [OF this] obtain k b where "b \<in> set algo_order"
        and "l @ ''_f_'' @ a = k @ ''_k_'' @ b" by blast
      with a have "''_f_'' = ''_k_''" using column_name_eq [of a b "''_f_''" "''_k_''" l k] by simp
      then show False by simp
    qed
    from feature_block_cols [OF f assms(2) fr] True show ?thesis by simp
  next
    case False
    with r2 show ?thesis by simp
  qed
  from c1 c2 show ?thesis by (simp add: window_columns_def)
qed

lemma update_set: "set (AList.update k v al) \<subseteq> insert (k, v) (set al)"
  by (induction al) auto

lemma assign_column_aligned:
  assumes "assign_column t n y = Inr t'" and "columns_aligned t"
  shows "columns_aligned t'"
proof -
  from assms(1) have len: "length y = length (pindex t)"
    and t': "t' = t\<lparr> pcols := AList.update n y (pcols t) \<rparr>"
    by (auto simp: assign_column_def split: if_splits)
  have "\<forall>v \<in> snd ` set (AList.update n y (pcols t)). v = y \<or> v \<in> snd ` set (pcols t)"
    using update_set [of n y "pcols t"] by force
  with assms(2) len show ?thesis unfolding columns_aligned_def t' by fastforce
qed

lemma sequential_algos_aligned:
  "sequential_algos algos ms run name_of as t = Inr t' \<Longrightarrow> columns_aligned t \<Longrightarrow> columns_aligned t'"
proof (induction as arbitrary: t)
  case Nil
  then show ?case by simp
next
  case (Cons a as)
  show ?case
  proof (cases "a \<in> set algos")
    case False
    with Cons show ?thesis by simp
  next
    case True
    with Cons.prems(1) obtain m y t1 where a: "assign_column t (name_of a) y = Inr t1"
      and s: "sequential_algos algos ms run name_of as t1 = Inr t'"
      by (auto split: sum.splits)
    from Cons.IH [OF s assign_column_aligned [OF a Cons.prems(2)]] show ?thesis .
  qed
qed

lemma label_loop_aligned:
  "label_loop P E step name_tag features train_df predict_df ls t = Inr t' \<Longrightarrow>
     columns_aligned t \<Longrightarrow> columns_aligned t'"
proof (induction ls arbitrary: t)
  case Nil
  then show ?case by simp
next
  case (Cons k ls)
  from Cons.prems(1) obtain t1 where
    one: "(if use_multiprocessing P then
           parallel_algos (max_workers P) (cpu_count E) (pick E step name_tag k)
             (algorithms P) (models E)
             (\<lambda>a m. train_predict E a features k train_df predict_df m)
             (\<lambda>a. k @ name_tag @ a) t
         else
           sequential_algos (algorithms P) (models E)
             (\<lambda>a m. train_predict E a features k train_df predict_df m)
             (\<lambda>a. k @ name_tag @ a) algo_order t) = Inr t1"
    and rest: "label_loop P E step name_tag features train_df predict_df ls t1 = Inr t'"
    by (simp split: sum.splits)
  have "sequential_algos (algorithms P) (models E)
             (\<lambda>a m. train_predict E a features k train_df predict_df m)
             (\<lambda>a. k @ name_tag @ a) algo_order t = Inr t1"
    using one parallel_success_sequential [OF name_inj] by (simp split: if_splits)
  from Cons.IH [OF rest sequential_algos_aligned [OF this Cons.prems(2)]] show ?case .
qed

lemma feature_block_aligned:
  "feature_block P C E df ps step name_tag len features t = Inr t' \<Longrightarrow>
     columns_aligned t \<Longrightarrow> columns_aligned t'"
  unfolding feature_block_def Let_def by (rule label_loop_aligned)

lemma run_step_aligned:
  assumes "run_step P C E df ps step = Inr t"
  shows "columns_aligned t"
proof -
  define t0 where "t0 = \<lparr> pindex = iloc_index (length df) (ps + step * prediction_length P)
                  (ps + step * prediction_length P + prediction_length P), pcols = [] \<rparr>"
  define r1 where "r1 = (if ''kline'' \<in> set (feature_sets P) then
              feature_block P C E df ps step ''_k_'' (kline_train_length P)
                (features_kline C) t0
            else Inr t0)"
  have rs: "run_step P C E df ps step = (case r1 of Inl e \<Rightarrow> Inl e
          | Inr t1 \<Rightarrow>
              (if ''futur'' \<in> set (feature_sets P) then
                 feature_block P C E df ps step ''_f_'' (futur_train_length P)
                   (features_futur C) t1
               else Inr t1))"
    by (simp add: run_step_def Let_def r1_def t0_def)
  from assms rs obtain t1 where r1: "r1 = Inr t1"
    and r2: "(if ''futur'' \<in> set (feature_sets P) then
                 feature_block P C E df ps step ''_f_'' (futur_train_length P)
                   (features_futur C) t1
               else Inr t1) = Inr t"
    by (cases r1) simp_all
  have a0: "columns_aligned t0" by (simp add: columns_aligned_def t0_def)
  have a1: "columns_aligned t1"
    using r1 a0 unfolding r1_def by (auto split: if_splits dest: feature_block_aligned)
  show ?thesis
    using r2 a1 by (auto split: if_splits dest: feature_block_aligned)
qed

lemma iloc_length: "length (iloc df a b) = length (iloc_index (length df) a b)"
  by (simp add: iloc_def)

text \<open>
  Claim C6. The adapters being functions of their inputs, the result of \<open>main\<close>
  and of every step is the same for every pool size that the executor accepts
  (\<open>max_workers\<close>, or the number of processors behind \<open>None\<close>) and for every scheduler,
  that is, for every order in which the tasks complete. The table of a step has one row
  per row of the prediction slice, every column has one value per row, and, the labels
  being distinct, its columns are exactly \<open>window_columns\<close>: the names
  \<open>label + name_tag + algorithm\<close> in the iteration order of the pairs, each with the
  values its adapter returned.
\<close>

theorem dispatch_deterministic:
  assumes "max_workers P \<noteq> Some 0" and "w' \<noteq> Some 0"
  shows "main (P\<lparr>max_workers := w'\<rparr>) C (E\<lparr>cpu_count := c', pick := p'\<rparr>) df ps = main P C E df ps
    \<and> run_step (P\<lparr>max_workers := w'\<rparr>) C (E\<lparr>cpu_count := c', pick := p'\<rparr>) df ps step
        = run_step P C E df ps step
    \<and> (\<forall>t. run_step P C E df ps step = Inr t \<longrightarrow>
          length (pindex t) =
            length (iloc df (ps + step * prediction_length P)
                      (ps + step * prediction_length P + prediction_length P))
        \<and> columns_aligned t
        \<and> (distinct (labels C) \<longrightarrow> pcols t = window_columns P C E df ps step))"
proof -
  have a: "main (P\<lparr>max_workers := w'\<rparr>) C (E\<lparr>cpu_count := c', pick := p'\<rparr>) df ps = main P C E df ps"
    by (rule main_any_pool [OF assms])
  have b: "run_step (P\<lparr>max_workers := w'\<rparr>) C (E\<lparr>cpu_count := c', pick := p'\<rparr>) df ps step
        = run_step P C E df ps step"
    by (rule run_step_any_pool [OF assms])
  have c: "\<forall>t. run_step P C E df ps step = Inr t \<longrightarrow>
          length (pindex t) =
            length (iloc df (ps + step * prediction_length P)
                      (ps + step * prediction_length P + prediction_length P))
        \<and> columns_aligned t
        \<and> (distinct (labels C) \<longrightarrow> pcols t = window_columns P C E df ps step)"
    using run_step_index run_step_aligned run_step_cols by (metis iloc_length)
  from a b c show ?thesis by blast
qed

text \<open>Three algorithms, listed in another order than the blocks of the source, in
  a pool of two workers where the last running task finishes first, and in a pool of
  one worker: the completion orders differ, the tables do not, and the columns stand in
  the order \<open>gb\<close>, \<open>nn\<close>, \<open>lc\<close>.\<close>

theorem dispatch_deterministic_witness:
  "max_workers (example_params\<lparr>algorithms := [''lc'', ''gb'', ''nn'']\<rparr>) = Some 2
   \<and> completion_order 2 (late_first 0 ''_k_'' ''high'') [0, 1, 2] = [1, 2, 0]
   \<and> completion_order 1 (early_first 0 ''_k_'' ''high'') [0, 1, 2] = [0, 1, 2]
   \<and> main (example_params\<lparr>algorithms := [''lc'', ''gb'', ''nn''], max_workers := Some 1\<rparr>)
        example_config (example_env\<lparr>cpu_count := 1, pick := early_first\<rparr>) example_df 4
      = main (example_params\<lparr>algorithms := [''lc'', ''gb'', ''nn'']\<rparr>) example_config example_env example_df 4
   \<and> run_step (example_params\<lparr>algorithms := [''lc'', ''gb'', ''nn'']\<rparr>) example_config example_env
        example_df 4 0
      = Inr \<lparr>pindex = [4, 5],
             pcols = [(''high_k_gb'', [Some 11, Some 12]), (''high_k_nn'', [Some 12, Some 13]),
                      (''high_k_lc'', [Some 12, Some 13])]\<rparr>
   \<and> distinct (labels example_config)
   \<and> window_columns (example_params\<lparr>algorithms := [''lc'', ''gb'', ''nn'']\<rparr>) example_config
        example_env example_df 4 0
      = [(''high_k_gb'', [Some 11, Some 12]), (''high_k_nn'', [Some 12, Some 13]),
         (''high_k_lc'', [Some 12, Some 13])]
   \<and> columns_aligned \<lparr>pindex = [4, 5],
             pcols = [(''high_k_gb'', [Some 11, Some 12]), (''high_k_nn'', [Some 12, Some 13]),
                      (''high_k_lc'', [Some 12, Some 13])]\<rparr>
   \<and> length (iloc example_df 4 6) = 2"
proof -
  define P3 where "P3 = example_params\<lparr>algorithms := [''lc'', ''gb'', ''nn'']\<rparr>"
  define t :: ptable where "t = \<lparr>pindex = [4, 5],
             pcols = [(''high_k_gb'', [Some 11, Some 12]), (''high_k_nn'', [Some 12, Some 13]),
                      (''high_k_lc'', [Some 12, Some 13])]\<rparr>"
  have w: "max_workers P3 = Some 2" by (simp add: P3_def example_params_def)
  then have w0: "max_workers P3 \<noteq> Some 0" by simp
  have w1: "Some (1::nat) \<noteq> Some 0" by simp
  note th = dispatch_deterministic [OF w0 w1, where C = example_config and E = example_env
      and c' = 1 and p' = early_first and df = example_df and ps = 4 and step = 0]
  have o1: "completion_order 2 (late_first 0 ''_k_'' ''high'') [0, 1, 2] = [1, 2, 0]" by code_simp
  have o2: "completion_order 1 (early_first 0 ''_k_'' ''high'') [0, 1, 2] = [0, 1, 2]" by code_simp
  have m: "main (P3\<lparr>max_workers := Some 1\<rparr>) example_config
        (example_env\<lparr>cpu_count := 1, pick := early_first\<rparr>) example_df 4
      = main P3 example_config example_env example_df 4"
    using th by blast
  have r: "run_step P3 example_config example_env example_df 4 0 = Inr t"
    unfolding P3_def t_def by code_simp
  have d: "distinct (labels example_config)" by (simp add: example_config_def)
  have s: "prediction_length P3 = 2" by (simp add: P3_def example_params_def)
  from th r d have c: "pcols t = window_columns P3 example_config example_env example_df 4 0"
    and a: "columns_aligned t"
    and l: "length (pindex t) = length (iloc example_df (4 + 0 * prediction_length P3)
                      (4 + 0 * prediction_length P3 + prediction_length P3))"
    by blast+
  from l have l': "length (iloc example_df 4 6) = 2" by (simp add: s t_def)
  from w o1 o2 m r d c [symmetric] a l' show ?thesis
    unfolding P3_def t_def by simp
qed

text \<open>The adapter that raises in the second window: the first window has its
  column, and yet the run ends with the exception and stores nothing.\<close>

theorem task_failure_aborts_witness:
  "checked_steps (prediction_count example_params) (prediction_length example_params)
     (int (length example_df)) 4 = Inr 3
   \<and> get_model (models (example_env\<lparr>train_predict := flaky_trainer\<rparr>)) ''nn'' = Inr ''layers''
   \<and> run_step example_params example_config (example_env\<lparr>train_predict := flaky_trainer\<rparr>)
        example_df 4 0 = Inr \<lparr>pindex = [4, 5], pcols = [(''high_k_nn'', [Some 12, Some 13])]\<rparr>
   \<and> flaky_trainer ''nn'' [''close_1''] ''high'' [0, 1, 2, 3] [6, 7] ''layers''
        = Inl (TrainingError ''diverged'')
   \<and> (\<exists>e'. run_step example_params example_config (example_env\<lparr>train_predict := flaky_trainer\<rparr>)
              example_df 4 1 = Inl e')
   \<and> (\<exists>e'. main example_params example_config (example_env\<lparr>train_predict := flaky_trainer\<rparr>)
              example_df 4 = Inl e')
   \<and> main example_params example_config (example_env\<lparr>train_predict := flaky_trainer\<rparr>)
        example_df 4 = Inl (TrainingError ''diverged'')"
proof -
  define E where "E = example_env\<lparr>train_predict := flaky_trainer\<rparr>"
  define w where "w = window_at 4 (prediction_length example_params) (label_horizon example_config) 4 1"
  have c: "checked_steps (prediction_count example_params) (prediction_length example_params)
     (int (length example_df)) 4 = Inr 3"
    by (rule example_checked)
  have s: "1 \<in> set (step_range 3)" by (simp add: step_range_def upt_rec)
  have b: "(''_k_'' = ''_k_'' \<and> ''kline'' \<in> set (feature_sets example_params)
            \<and> (4::int) = kline_train_length example_params
            \<and> [''close_1''] = features_kline example_config)
       \<or> (''_k_'' = ''_f_'' \<and> ''futur'' \<in> set (feature_sets example_params)
            \<and> (4::int) = futur_train_length example_params
            \<and> [''close_1''] = features_futur example_config)"
    by (simp add: example_params_def example_config_def)
  have l: "''high'' \<in> set (labels example_config)" by (simp add: example_config_def)
  have a: "''nn'' \<in> set algo_order" "''nn'' \<in> set (algorithms example_params)"
    by (simp_all add: algo_order_def example_params_def)
  have g: "get_model (models E) ''nn'' = Inr ''layers''"
    by (simp add: E_def example_env_def)
  have tr: "filter (\<lambda>r. \<not> has_na E [''close_1''] r) (iloc example_df (train_start w) (train_end w))
      = [0, 1, 2, 3]"
    unfolding w_def E_def by code_simp
  have te: "iloc example_df (predict_start w) (predict_end w) = [6, 7]"
    unfolding w_def by code_simp
  have f0: "flaky_trainer ''nn'' [''close_1''] ''high'' [0, 1, 2, 3] [6, 7] ''layers''
        = Inl (TrainingError ''diverged'')"
    by (simp add: flaky_trainer_def)
  have f: "train_predict E ''nn'' [''close_1''] ''high''
           (filter (\<lambda>r. \<not> has_na E [''close_1''] r) (iloc example_df (train_start w) (train_end w)))
           (iloc example_df (predict_start w) (predict_end w)) ''layers'' = Inl (TrainingError ''diverged'')"
    unfolding tr te using f0 by (simp add: E_def example_env_def)
  note th = task_failure_aborts [OF c s b l a g w_def f]
  have r0: "run_step example_params example_config E example_df 4 0
      = Inr \<lparr>pindex = [4, 5], pcols = [(''high_k_nn'', [Some 12, Some 13])]\<rparr>"
    unfolding E_def by code_simp
  have m: "main example_params example_config E example_df 4 = Inl (TrainingError ''diverged'')"
    unfolding E_def by code_simp
  from c g r0 f0 th m show ?thesis unfolding E_def by blast
qed

end
